theory Spec2Isabelle
  imports Main
begin

section \<open>Values, exceptions and the discovered schema\<close>

text \<open>
  Python strings are modelled as \<^typ>\<open>string\<close>; a character is read as the code point
  of the same number, so the model covers the code points U+0000 to U+00FF (ASCII and the
  accented Latin letters the patterns of the scanner mention).

  The values handed to the database driver are strings, integers, timestamps, the
  megabyte figure derived from a size (the float \<open>round(size_bytes / (1024 * 1024), 2)\<close>,
  kept as the size it is computed from) and the two JSON documents the scanner writes:
  \<open>{"errors": [...]}\<close> and \<open>{"error": ..., "timestamp": ...}\<close>, kept as their contents.
  Python's \<open>None\<close> is the \<open>None\<close> of an option.
\<close>

datatype pyval =
    VStr string
  | VInt int
  | VTime nat
  | VSizeMb int
  | VJsonErrors "string list"
  | VJsonError string nat

text \<open>An exception carries the text that \<open>str(e)\<close> gives in the source.\<close>

datatype exn =
    ValueError string
  | KeyError string
  | TypeError string
  | DatabaseError string
  | HttpError string

fun exn_str :: "exn \<Rightarrow> string" where
  "exn_str (ValueError m) = m"
| "exn_str (KeyError m) = [CHR 0x27] @ m @ [CHR 0x27]"
| "exn_str (TypeError m) = m"
| "exn_str (DatabaseError m) = m"
| "exn_str (HttpError m) = m"

text \<open>
  \<open>table_schemas\<close> of \<open>AdaptiveDatabaseDAO\<close>: for every discovered table the ordered
  list \<open>column_names\<close>.
\<close>

type_synonym table_schemas = "string \<rightharpoonup> string list"

section \<open>Python string operations\<close>

text \<open>
  The methods of \<open>str\<close> the source calls, on code points up to U+00FF.
  \<open>lower\<close> maps A..Z and the accented capitals U+00C0..U+00DE (but the
  multiplication sign U+00D7) 32 places up. \<open>upper\<close> is its inverse; Python sends
  three characters of this range out of it (U+00FF, U+00B5 and U+00DF), which
  \<open>upper_char\<close> leaves alone: \<open>upper\<close> is applied to the letters A to Z and a to z
  only, and the matcher, which tries both cases of a character under \<open>IGNORECASE\<close>,
  finds these three in the same classes of the source either way.
  \<open>is_space\<close> is \<open>str.isspace\<close> and the class \<open>\s\<close>, \<open>is_word\<close> the
  class \<open>\w\<close> that decides \<open>\b\<close>.
\<close>

definition code_point :: "char \<Rightarrow> nat" where
  "code_point c = of_char c"

definition between :: "nat \<Rightarrow> nat \<Rightarrow> char \<Rightarrow> bool" where
  "between lo hi c = (lo \<le> code_point c \<and> code_point c \<le> hi)"

definition lower_char :: "char \<Rightarrow> char" where
  "lower_char c =
     (if between 0x41 0x5A c \<or> (between 0xC0 0xDE c \<and> code_point c \<noteq> 0xD7)
      then char_of (code_point c + 32) else c)"

definition upper_char :: "char \<Rightarrow> char" where
  "upper_char c =
     (if between 0x61 0x7A c \<or> (between 0xE0 0xFE c \<and> code_point c \<noteq> 0xF7)
      then char_of (code_point c - 32) else c)"

definition is_space :: "char \<Rightarrow> bool" where
  "is_space c = (between 0x09 0x0D c \<or> between 0x1C 0x20 c \<or> code_point c = 0x85 \<or> code_point c = 0xA0)"

definition is_digit :: "char \<Rightarrow> bool" where
  "is_digit c = between 0x30 0x39 c"

definition is_word :: "char \<Rightarrow> bool" where
  "is_word c =
     (between 0x30 0x39 c \<or> between 0x41 0x5A c \<or> c = CHR ''_'' \<or> between 0x61 0x7A c
      \<or> code_point c \<in> {0xAA, 0xB2, 0xB3, 0xB5, 0xB9, 0xBA, 0xBC, 0xBD, 0xBE}
      \<or> (between 0xC0 0xFF c \<and> code_point c \<noteq> 0xD7 \<and> code_point c \<noteq> 0xF7))"

definition lower :: "string \<Rightarrow> string" where
  "lower s = map lower_char s"

definition upper :: "string \<Rightarrow> string" where
  "upper s = map upper_char s"

definition strip :: "string \<Rightarrow> string" where
  "strip s = rev (dropWhile is_space (rev (dropWhile is_space s)))"

definition replace_char :: "char \<Rightarrow> char \<Rightarrow> string \<Rightarrow> string" where
  "replace_char old new s = map (\<lambda>c. if c = old then new else c) s"

text \<open>\<open>s.split()\<close>: the maximal runs of characters that are not whitespace.\<close>

fun split_ws :: "string \<Rightarrow> string \<Rightarrow> string list" where
  "split_ws word [] = (if word = [] then [] else [word])"
| "split_ws word (c # cs) =
     (if is_space c then (if word = [] then split_ws [] cs else word # split_ws [] cs)
      else split_ws (word @ [c]) cs)"

definition split :: "string \<Rightarrow> string list" where
  "split s = split_ws [] s"

fun join :: "string \<Rightarrow> string list \<Rightarrow> string" where
  "join sep [] = []"
| "join sep [w] = w"
| "join sep (w # ws) = w @ sep @ join sep ws"

text \<open>
  \<open>str.capitalize\<close>: the first character in title case, the rest in lower case. The
  title case of U+00DF is the two letters \<open>Ss\<close>. That of U+00FF is U+0178, which is
  not among the code points of these strings: a word that begins with U+00FF keeps it
  here, where Python gives U+0178.
\<close>

definition capitalize :: "string \<Rightarrow> string" where
  "capitalize s =
     (case s of
        [] \<Rightarrow> []
      | c # cs \<Rightarrow> (if code_point c = 0xDF then ''Ss'' else [upper_char c]) @ lower cs)"

text \<open>\<open>sub in s\<close> on strings, and \<open>s.split(sep)[0]\<close> for a one-character separator.\<close>

fun starts_with :: "string \<Rightarrow> string \<Rightarrow> bool" where
  "starts_with [] s = True"
| "starts_with (p # ps) [] = False"
| "starts_with (p # ps) (c # cs) = (p = c \<and> starts_with ps cs)"

fun contains :: "string \<Rightarrow> string \<Rightarrow> bool" where
  "contains sub [] = (sub = [])"
| "contains sub (c # cs) = (starts_with sub (c # cs) \<or> contains sub cs)"

fun before_char :: "char \<Rightarrow> string \<Rightarrow> string" where
  "before_char sep [] = []"
| "before_char sep (c # cs) = (if c = sep then [] else c # before_char sep cs)"

section \<open>Regular expressions\<close>

text \<open>
  The patterns the source hands to \<open>re.search\<close> and \<open>re.sub\<close> use character
  classes, sequences, greedy and lazy repetition, one bounded repetition of a group,
  capturing groups, the anchors \<open>^\<close>, \<open>$\<close> and \<open>\b\<close>, and one lookahead.
  \<open>rmatch\<close> is a backtracking matcher for this fragment: from a position it returns
  every way the pattern can match, in the order in which Python's matcher tries them, so
  the head of the list is the match Python reports.

  A match state is the text already passed (last character first), the text still
  ahead, and the groups captured so far (latest first).

  Unbounded repetition stands only on a character class, as in every pattern of the
  source; a repeated group carries a finite upper bound.
\<close>

datatype citem = Ch char | Rng char char | Space | Digit

datatype cset = In "citem list" | NotIn "citem list"

fun in_item :: "citem \<Rightarrow> char \<Rightarrow> bool" where
  "in_item (Ch x) c = (c = x)"
| "in_item (Rng a b) c = between (code_point a) (code_point b) c"
| "in_item Space c = is_space c"
| "in_item Digit c = is_digit c"

text \<open>
  With \<open>re.IGNORECASE\<close> a character belongs to a class when its lower-case or its
  upper-case form does.
\<close>

definition in_items :: "bool \<Rightarrow> citem list \<Rightarrow> char \<Rightarrow> bool" where
  "in_items ic items c =
     (if ic then list_ex (\<lambda>i. in_item i (lower_char c) \<or> in_item i (upper_char c)) items
      else list_ex (\<lambda>i. in_item i c) items)"

fun in_cset :: "bool \<Rightarrow> cset \<Rightarrow> char \<Rightarrow> bool" where
  "in_cset ic (In items) c = in_items ic items c"
| "in_cset ic (NotIn items) c = (\<not> in_items ic items c)"

datatype regex =
    Eps
  | Chars cset nat "nat option" bool
  | Then regex regex
  | Times regex nat nat bool
  | Group nat regex
  | Bol
  | Eol
  | Wordb
  | Ahead regex

type_synonym mstate = "string \<times> string \<times> (nat \<times> string) list"

definition chars_match :: "bool \<Rightarrow> cset \<Rightarrow> nat \<Rightarrow> nat option \<Rightarrow> bool \<Rightarrow> mstate \<Rightarrow> mstate list" where
  "chars_match ic cs mn mx greedy s =
     (case s of (seen, rest, caps) \<Rightarrow>
        let n = length (takeWhile (in_cset ic cs) rest);
            hi = (case mx of None \<Rightarrow> n | Some k \<Rightarrow> min n k);
            counts = (if greedy then rev [mn..<Suc hi] else [mn..<Suc hi])
        in map (\<lambda>k. (rev (take k rest) @ seen, drop k rest, caps)) counts)"

fun repeat :: "(mstate \<Rightarrow> mstate list) \<Rightarrow> bool \<Rightarrow> nat \<Rightarrow> nat \<Rightarrow> mstate \<Rightarrow> mstate list" where
  "repeat m greedy mn 0 s = (if mn = 0 then [s] else [])"
| "repeat m greedy mn (Suc mx) s =
     (let more = concat (map (repeat m greedy (mn - 1) mx) (m s))
      in if 0 < mn then more else if greedy then more @ [s] else s # more)"

definition at_boundary :: "mstate \<Rightarrow> bool" where
  "at_boundary s =
     (case s of (seen, rest, caps) \<Rightarrow>
        (case seen of [] \<Rightarrow> False | b # _ \<Rightarrow> is_word b)
        \<noteq> (case rest of [] \<Rightarrow> False | c # _ \<Rightarrow> is_word c))"

definition set_group :: "nat \<Rightarrow> mstate \<Rightarrow> mstate \<Rightarrow> mstate" where
  "set_group n s s' =
     (case s of (seen, rest, caps) \<Rightarrow>
      case s' of (seen', rest', caps') \<Rightarrow>
        (seen', rest', (n, take (length rest - length rest') rest) # caps'))"

primrec rmatch :: "regex \<Rightarrow> bool \<Rightarrow> mstate \<Rightarrow> mstate list" where
  "rmatch Eps ic s = [s]"
| "rmatch (Chars cs mn mx greedy) ic s = chars_match ic cs mn mx greedy s"
| "rmatch (Then r1 r2) ic s = concat (map (rmatch r2 ic) (rmatch r1 ic s))"
| "rmatch (Times r mn mx greedy) ic s = repeat (rmatch r ic) greedy mn mx s"
| "rmatch (Group n r) ic s = map (set_group n s) (rmatch r ic s)"
| "rmatch Bol ic s = (if fst s = [] then [s] else [])"
| "rmatch Eol ic s = (if fst (snd s) = [] \<or> fst (snd s) = [CHR 0x0A] then [s] else [])"
| "rmatch Wordb ic s = (if at_boundary s then [s] else [])"
| "rmatch (Ahead r) ic s = (if rmatch r ic s = [] then [] else [s])"

text \<open>
  \<open>re.search\<close> tries each start position from the left and reports the first match
  at the first position that has one. \<open>re.sub\<close> replaces the matches found from left
  to right, resuming after each one.
\<close>

record rmatched =
  m_start :: nat
  m_text :: string
  m_groups :: "(nat \<times> string) list"

definition matched :: "mstate \<Rightarrow> mstate \<Rightarrow> rmatched" where
  "matched s s' =
     (case s of (seen, rest, caps) \<Rightarrow>
      case s' of (seen', rest', caps') \<Rightarrow>
        \<lparr>m_start = length seen, m_text = take (length rest - length rest') rest, m_groups = caps'\<rparr>)"

definition match_at :: "regex \<Rightarrow> bool \<Rightarrow> string \<Rightarrow> string \<Rightarrow> rmatched option" where
  "match_at r ic seen rest =
     (case rmatch r ic (seen, rest, []) of
        [] \<Rightarrow> None
      | s' # _ \<Rightarrow> Some (matched (seen, rest, []) s'))"

fun search_from :: "regex \<Rightarrow> bool \<Rightarrow> string \<Rightarrow> string \<Rightarrow> rmatched option" where
  "search_from r ic seen [] = match_at r ic seen []"
| "search_from r ic seen (c # cs) =
     (case match_at r ic seen (c # cs) of
        Some m \<Rightarrow> Some m
      | None \<Rightarrow> search_from r ic (c # seen) cs)"

definition re_search :: "regex \<Rightarrow> bool \<Rightarrow> string \<Rightarrow> rmatched option" where
  "re_search r ic s = search_from r ic [] s"

definition group :: "rmatched \<Rightarrow> nat \<Rightarrow> string" where
  "group m n = (case map_of (m_groups m) n of Some t \<Rightarrow> t | None \<Rightarrow> [])"

fun sub_from :: "regex \<Rightarrow> bool \<Rightarrow> (rmatched \<Rightarrow> string) \<Rightarrow> string \<Rightarrow> string \<Rightarrow> nat \<Rightarrow> string" where
  "sub_from r ic repl seen [] skip =
     (if skip = 0 then (case match_at r ic seen [] of Some m \<Rightarrow> repl m | None \<Rightarrow> []) else [])"
| "sub_from r ic repl seen (c # cs) skip =
     (if 0 < skip then sub_from r ic repl (c # seen) cs (skip - 1)
      else (case match_at r ic seen (c # cs) of
              None \<Rightarrow> c # sub_from r ic repl (c # seen) cs 0
            | Some m \<Rightarrow>
                if m_text m = [] then repl m @ c # sub_from r ic repl (c # seen) cs 0
                else repl m @ sub_from r ic repl (c # seen) cs (length (m_text m) - 1)))"

definition re_sub :: "regex \<Rightarrow> bool \<Rightarrow> (rmatched \<Rightarrow> string) \<Rightarrow> string \<Rightarrow> string" where
  "re_sub r ic repl s = sub_from r ic repl [] s 0"

text \<open>Abbreviations for writing the patterns of the source.\<close>

definition seqs :: "regex list \<Rightarrow> regex" where
  "seqs rs = foldr Then rs Eps"

definition one :: "citem list \<Rightarrow> regex" where "one items = Chars (In items) 1 (Some 1) True"
definition lit :: "char \<Rightarrow> regex" where "lit c = one [Ch c]"
definition opt :: "citem list \<Rightarrow> regex" where "opt items = Chars (In items) 0 (Some 1) True"
definition star :: "citem list \<Rightarrow> regex" where "star items = Chars (In items) 0 None True"
definition plus :: "citem list \<Rightarrow> regex" where "plus items = Chars (In items) 1 None True"
definition at_least :: "nat \<Rightarrow> citem list \<Rightarrow> regex" where "at_least n items = Chars (In items) n None True"
definition lazy_star :: "citem list \<Rightarrow> regex" where "lazy_star items = Chars (In items) 0 None False"
definition lazy_at_least :: "nat \<Rightarrow> citem list \<Rightarrow> regex" where
  "lazy_at_least n items = Chars (In items) n None False"
definition maybe :: "regex \<Rightarrow> regex" where "maybe r = Times r 0 1 True"

definition letters :: "citem list" where
  "letters = [Rng CHR ''A'' CHR ''Z'', Rng CHR ''a'' CHR ''z'', Rng (CHR 0xC0) (CHR 0xFF)]"

definition seps :: "citem list" where
  "seps = [Ch CHR ''_'', Space, Ch CHR ''-'']"

section \<open>The insert builder\<close>

text \<open>
  The statement text of \<open>_build_insert_query\<close> is
  \<^verbatim>\<open>INSERT INTO {table} ({columns}) VALUES ({placeholders}) RETURNING id\<close>.
  The model keeps its parts apart: the table, the column list, the placeholder list and
  the closing clause, which callers replace by an \<open>ON CONFLICT\<close> clause.
\<close>

datatype set_rhs = Excluded string | Now_call

datatype closing =
    Returning_id
  | On_conflict string "(string \<times> set_rhs) list"

record insert_query =
  q_table :: string
  q_columns :: "string list"
  q_placeholders :: "string list"
  q_closing :: closing

text \<open>
  The loop over \<open>data.items()\<close>: a dictionary is its list of items in insertion order,
  and the three accumulators grow by \<open>append\<close>.
\<close>

fun insert_loop ::
  "string list \<Rightarrow> (string \<times> pyval option) list \<Rightarrow>
   string list \<times> pyval list \<times> string list \<Rightarrow> string list \<times> pyval list \<times> string list" where
  "insert_loop available_columns [] acc = acc"
| "insert_loop available_columns ((column, vo) # items) (insert_columns, insert_values, placeholders) =
     (case vo of
        Some v \<Rightarrow>
          (if column \<in> set available_columns
           then insert_loop available_columns items
                  (insert_columns @ [column], insert_values @ [v], placeholders @ [''%s''])
           else insert_loop available_columns items (insert_columns, insert_values, placeholders))
      | None \<Rightarrow> insert_loop available_columns items (insert_columns, insert_values, placeholders))"

definition build_insert_query ::
  "table_schemas \<Rightarrow> string \<Rightarrow> (string \<times> pyval option) list \<Rightarrow> exn + (insert_query \<times> pyval list)" where
  "build_insert_query schemas table_name data =
     (case schemas table_name of
        None \<Rightarrow> Inl (ValueError (''Tabla '' @ table_name @ '' no encontrada en schema''))
      | Some available_columns \<Rightarrow>
          (case insert_loop available_columns data ([], [], []) of
             (insert_columns, insert_values, placeholders) \<Rightarrow>
               if insert_columns = []
               then Inl (ValueError (''No hay columnas v'' @ [CHR 0xE1] @ ''lidas para insertar en '' @ table_name))
               else Inr (\<lparr>q_table = table_name, q_columns = insert_columns,
                          q_placeholders = placeholders, q_closing = Returning_id\<rparr>,
                         insert_values)))"

text \<open>The fields of a mapping that survive the filter, in mapping order.\<close>

definition surviving :: "string list \<Rightarrow> (string \<times> pyval option) list \<Rightarrow> (string \<times> pyval) list" where
  "surviving available_columns data =
     [(k, v). (k, Some v) \<leftarrow> data, k \<in> set available_columns]"

section \<open>Identity resolution\<close>

text \<open>
  The metadata of a file as the storage client returns it. A key that may be missing is
  an option; \<open>get_or\<close> is \<open>dict.get\<close> with its default.
\<close>

record drive_user =
  u_emailAddress :: "string option"
  u_displayName :: "string option"

record file_data =
  f_id :: "string option"
  f_name :: "string option"
  f_mimeType :: "string option"
  f_size :: "string option"
  f_createdTime :: "string option"
  f_modifiedTime :: "string option"
  f_lastModifyingUser :: "drive_user option"
  f_owners :: "drive_user list option"

definition get_or :: "string option \<Rightarrow> string \<Rightarrow> string" where
  "get_or v d = (case v of None \<Rightarrow> d | Some s \<Rightarrow> s)"

text \<open>
  The three spellings of the module word in the patterns:
  \<^verbatim>\<open>[Mm][\u00f3o]?dulo?\<close>, \<^verbatim>\<open>[Mm][\u00f3o]dulo?\<close> and \<^verbatim>\<open>[Mm]odulo?\<close>.
\<close>

definition o_acute :: char where "o_acute = CHR 0xF3"

definition modulo_accent_optional :: "regex list" where
  "modulo_accent_optional =
     [one [Ch CHR ''M'', Ch CHR ''m''], opt [Ch o_acute, Ch CHR ''o''],
      lit CHR ''d'', lit CHR ''u'', lit CHR ''l'', opt [Ch CHR ''o'']]"

definition modulo_accent_or_o :: "regex list" where
  "modulo_accent_or_o =
     [one [Ch CHR ''M'', Ch CHR ''m''], one [Ch o_acute, Ch CHR ''o''],
      lit CHR ''d'', lit CHR ''u'', lit CHR ''l'', opt [Ch CHR ''o'']]"

definition modulo_plain :: "regex list" where
  "modulo_plain =
     [one [Ch CHR ''M'', Ch CHR ''m''], lit CHR ''o'',
      lit CHR ''d'', lit CHR ''u'', lit CHR ''l'', opt [Ch CHR ''o'']]"

text \<open>
  \<open>_extract_name_from_filename\<close>: two patterns, searched with \<open>re.IGNORECASE\<close>;
  the first that matches gives the name, with camel-case boundaries opened and every
  word capitalised.
\<close>

definition extract_patterns :: "regex list" where
  "extract_patterns =
     [seqs (modulo_accent_optional @
        [star [Space], plus [Digit], plus seps,
         Group 1 (seqs [plus letters,
                        maybe (seqs [one [Rng CHR ''A'' CHR ''Z''], plus [Rng CHR ''a'' CHR ''z'']])])]),
      seqs (modulo_accent_optional @
        [star seps, plus [Digit], plus seps,
         Group 1 (plus [Rng CHR ''a'' CHR ''z'', Rng CHR ''A'' CHR ''Z'', Rng (CHR 0xC0) (CHR 0xFF)])])]"

definition camel_boundary :: regex where
  "camel_boundary =
     seqs [Group 1 (one [Rng CHR ''a'' CHR ''z'']), Group 2 (one [Rng CHR ''A'' CHR ''Z''])]"

fun first_search :: "regex list \<Rightarrow> bool \<Rightarrow> string \<Rightarrow> rmatched option" where
  "first_search [] ic s = None"
| "first_search (p # ps) ic s =
     (case re_search p ic s of Some m \<Rightarrow> Some m | None \<Rightarrow> first_search ps ic s)"

definition extract_name_from_filename :: "string \<Rightarrow> string option" where
  "extract_name_from_filename filename =
     (case first_search extract_patterns True filename of
        None \<Rightarrow> None
      | Some m \<Rightarrow>
          let name = group m 1;
              name = re_sub camel_boundary False (\<lambda>m. group m 1 @ '' '' @ group m 2) name;
              name = strip (replace_char CHR ''-'' CHR '' '' (replace_char CHR ''_'' CHR '' '' name));
              name = join '' '' (map capitalize (split name))
          in Some name)"

text \<open>
  \<open>email_pattern\<close> of the scanner:
  \<^verbatim>\<open>\b[A-Za-z0-9._%+-]+@[A-Za-z0-9.-]+\.[A-Z|a-z]{2,}\b\<close>.
\<close>

definition email_pattern :: regex where
  "email_pattern =
     seqs [Wordb,
           plus [Rng CHR ''A'' CHR ''Z'', Rng CHR ''a'' CHR ''z'', Rng CHR ''0'' CHR ''9'',
                 Ch CHR ''.'', Ch CHR ''_'', Ch CHR ''%'', Ch CHR ''+'', Ch CHR ''-''],
           lit CHR ''@'',
           plus [Rng CHR ''A'' CHR ''Z'', Rng CHR ''a'' CHR ''z'', Rng CHR ''0'' CHR ''9'',
                 Ch CHR ''.'', Ch CHR ''-''],
           lit CHR ''.'',
           at_least 2 [Rng CHR ''A'' CHR ''Z'', Ch CHR ''|'', Rng CHR ''a'' CHR ''z''],
           Wordb]"

text \<open>
  The seven \<open>name_patterns\<close> of step 4, in the order of the source. Four of them end in
  \<^verbatim>\<open>(?:[_\s-]+\d+)?\.?[a-zA-Z]*$\<close>.
\<close>

definition trailing_index :: "regex list" where
  "trailing_index =
     [maybe (seqs [plus seps, plus [Digit]]), opt [Ch CHR ''.''],
      star [Rng CHR ''a'' CHR ''z'', Rng CHR ''A'' CHR ''Z''], Eol]"

definition name_patterns :: "regex list" where
  "name_patterns =
     [seqs (modulo_accent_or_o @ [star [Space], plus [Digit], plus seps,
         Group 1 (seqs [at_least 3 letters, lazy_star (letters @ [Space])])] @ trailing_index),
      seqs (modulo_plain @ [star [Space], plus [Digit], plus seps,
         Group 1 (seqs [at_least 3 letters, lazy_star (letters @ [Space])])] @ trailing_index),
      seqs (modulo_accent_optional @ [star [Space], plus [Digit], plus seps,
         Group 1 (seqs [plus letters,
                        Times (seqs [one [Ch CHR ''_'', Space], plus letters]) 1 3 True]),
         maybe (seqs [plus seps, plus [Digit]])]),
      seqs (modulo_accent_optional @ [star [Space], plus [Digit], plus seps,
         Group 1 (lazy_at_least 4 (letters @ [Space]))] @ trailing_index),
      seqs [Bol, Group 1 (seqs [plus letters, plus seps, plus letters])],
      seqs [Bol, Group 1 (lazy_at_least 3 (letters @ [Space])),
            one [Ch CHR ''-'', Ch CHR ''_'', Ch CHR ''.'']],
      seqs [Group 1 (lazy_at_least 3 (letters @ [Space])), Ahead (one [Digit])]]"

text \<open>
  What step 4 does with a match: the two \<open>re.sub\<close> calls that strip a leading module
  number and a trailing number, the validation against \<open>palabras_invalidas\<close>, and the
  placeholder address.
\<close>

definition module_prefix :: regex where
  "module_prefix = seqs (Bol # modulo_accent_optional @ [star [Space], plus [Digit], star seps])"

definition number_suffix :: regex where
  "number_suffix = seqs [star seps, plus [Digit], star seps, Eol]"

definition modulo_acc :: string where
  "modulo_acc = ''m'' @ [o_acute] @ ''dulo''"

definition palabras_invalidas :: "string list" where
  "palabras_invalidas = [''modulo'', modulo_acc, ''dulo'', ''ejercicio'', ''tarea'', ''test'']"

definition clean_candidate :: "string \<Rightarrow> string" where
  "clean_candidate g =
     (let name = strip (replace_char CHR ''-'' CHR '' '' (replace_char CHR ''_'' CHR '' '' g));
          name = re_sub module_prefix True (\<lambda>m. []) name;
          name = re_sub number_suffix False (\<lambda>m. []) name
      in strip name)"

definition name_is_valid :: "string \<Rightarrow> bool" where
  "name_is_valid name =
     (2 < length name
      \<and> \<not> list_ex (\<lambda>word. word = lower name) palabras_invalidas
      \<and> \<not> list_ex (\<lambda>word. contains word (lower name)) [''modulo'', modulo_acc, ''dulo'']
      \<and> lower name \<notin> set palabras_invalidas)"

definition temp_email :: "string \<Rightarrow> string" where
  "temp_email name =
     (let email_name = lower name;
          email_name = replace_char CHR '' '' CHR ''.'' email_name;
          email_name = replace_char (CHR 0xF1) CHR ''n'' email_name;
          email_name = replace_char (CHR 0xE1) CHR ''a'' email_name;
          email_name = replace_char (CHR 0xE9) CHR ''e'' email_name;
          email_name = replace_char (CHR 0xED) CHR ''i'' email_name;
          email_name = replace_char (CHR 0xF3) CHR ''o'' email_name;
          email_name = replace_char (CHR 0xFA) CHR ''u'' email_name
      in email_name @ ''@extracted.temp'')"

fun try_name_patterns :: "regex list \<Rightarrow> string \<Rightarrow> (string \<times> string) option" where
  "try_name_patterns [] filename = None"
| "try_name_patterns (pattern # patterns) filename =
     (case re_search pattern True filename of
        None \<Rightarrow> try_name_patterns patterns filename
      | Some m \<Rightarrow>
          let name = clean_candidate (group m 1)
          in if name_is_valid name
             then (let name = join '' '' (split name) in Some (name, temp_email name))
             else try_name_patterns patterns filename)"

text \<open>
  Steps 1 and 2 choose the name in the same way: the name extracted from the filename
  when it has more than 3 characters, else the display name, else the local part of the
  address.
\<close>

definition preferred_name :: "string \<Rightarrow> string \<Rightarrow> string \<Rightarrow> string" where
  "preferred_name display_name email filename =
     (case extract_name_from_filename filename of
        Some better_name \<Rightarrow>
          if better_name \<noteq> [] \<and> 3 < length better_name then better_name
          else if display_name \<noteq> [] then display_name
          else before_char CHR ''@'' email
      | None \<Rightarrow>
          if display_name \<noteq> [] then display_name else before_char CHR ''@'' email)"

definition from_user :: "drive_user \<Rightarrow> string \<Rightarrow> (string \<times> string) option" where
  "from_user user filename =
     (let email = get_or (u_emailAddress user) [];
          display_name = get_or (u_displayName user) []
      in if email \<noteq> [] \<and> CHR ''@'' \<in> set email
         then Some (preferred_name display_name email filename, email)
         else None)"

text \<open>
  \<open>identify_student_from_file\<close>. With the metadata typed as above no call in its
  \<open>try\<close> block raises, so the \<open>except\<close> branch (which returns \<open>None\<close>) has no
  counterpart here.
\<close>

definition identify_student_from_file :: "file_data \<Rightarrow> (string \<times> string) option" where
  "identify_student_from_file fd =
     (let filename = get_or (f_name fd) [];
          step1 = (case f_lastModifyingUser fd of None \<Rightarrow> None | Some user \<Rightarrow> from_user user filename);
          step2 = (case f_owners fd of
                     None \<Rightarrow> None
                   | Some [] \<Rightarrow> None
                   | Some (owner # _) \<Rightarrow> from_user owner filename)
      in case step1 of
           Some r \<Rightarrow> Some r
         | None \<Rightarrow>
             (case step2 of
                Some r \<Rightarrow> Some r
              | None \<Rightarrow>
                  (case re_search email_pattern False filename of
                     Some m \<Rightarrow> Some (before_char CHR ''@'' (m_text m), m_text m)
                   | None \<Rightarrow> try_name_patterns name_patterns filename)))"

text \<open>A file of which the storage client reports an id and a name, and nothing else.\<close>

definition unattributed_file :: "string \<Rightarrow> file_data" where
  "unattributed_file n =
     \<lparr>f_id = Some ''F1'', f_name = Some n, f_mimeType = None, f_size = None,
      f_createdTime = None, f_modifiedTime = None, f_lastModifyingUser = None, f_owners = None\<rparr>"

section \<open>Module codes\<close>

text \<open>
  \<open>_generate_module_code\<close>: the pattern \<^verbatim>\<open>[Mm]odulo?\s*(\d+)\<close> (searched without
  flags), then the table \<open>special_codes\<close> in its order, then the first four of the
  letters A..Z, a..z of the name.
\<close>

definition module_number :: regex where
  "module_number = seqs (modulo_plain @ [star [Space], Group 1 (plus [Digit])])"

definition zfill :: "nat \<Rightarrow> string \<Rightarrow> string" where
  "zfill width s =
     (case s of
        c # cs \<Rightarrow>
          if c = CHR ''+'' \<or> c = CHR ''-''
          then c # replicate (width - length s) CHR ''0'' @ cs
          else replicate (width - length s) CHR ''0'' @ s
      | [] \<Rightarrow> replicate width CHR ''0'')"

definition special_codes :: "(string \<times> string) list" where
  "special_codes =
     [(''correcciones'', ''CORR''), (''dibujos'', ''DRAW''), (''lives'', ''LIVE''),
      (''evaluacion'', ''EVAL''), (''autoevaluacion'', ''AUTO''), (''examen'', ''EXAM''),
      (''tarea'', ''TASK'')]"

fun first_keyword :: "(string \<times> string) list \<Rightarrow> string \<Rightarrow> string option" where
  "first_keyword [] name_lower = None"
| "first_keyword ((keyword, code) # rest) name_lower =
     (if contains keyword name_lower then Some code else first_keyword rest name_lower)"

definition not_a_letter :: regex where
  "not_a_letter = Chars (NotIn [Rng CHR ''A'' CHR ''Z'', Rng CHR ''a'' CHR ''z'']) 1 (Some 1) True"

definition generate_module_code :: "string \<Rightarrow> string" where
  "generate_module_code name =
     (case re_search module_number False name of
        Some module_match \<Rightarrow> ''MOD'' @ zfill 2 (group module_match 1)
      | None \<Rightarrow>
          (case first_keyword special_codes (lower name) of
             Some code \<Rightarrow> code
           | None \<Rightarrow>
               let clean_name = re_sub not_a_letter False (\<lambda>m. []) name;
                   code = upper (take 4 clean_name)
               in if code = [] then ''MOD0'' else code))"

section \<open>The relational store\<close>

text \<open>
  The store is outside the repository; the model gives it the behaviour the statements of
  the DAO rely on. A table has its columns and its rows; a row maps a column to its
  value, NULL being \<open>None\<close>. A fetched row (a \<open>RealDictCursor\<close> dictionary) has a key
  for every column of the table.
\<close>

type_synonym row = "string \<rightharpoonup> pyval"

record table =
  t_columns :: "string list"
  t_rows :: "row list"

type_synonym database = "string \<rightharpoonup> table"

type_synonym result_row = "string \<rightharpoonup> pyval option"

text \<open>
  The statements the DAO sends. A comparison with NULL (\<open>WHERE id = %s\<close> with
  \<open>None\<close>) selects no row.
\<close>

datatype statement =
    Insert insert_query "pyval list"
  | Update string "string list" "pyval list" "pyval option"
  | Select_all string
  | Select_where string string "pyval option"
  | Select_next_order

definition fetched :: "table \<Rightarrow> row \<Rightarrow> result_row" where
  "fetched t r = (\<lambda>c. if c \<in> set (t_columns t) then Some (r c) else None)"

definition no_relation :: "string \<Rightarrow> exn" where
  "no_relation name = DatabaseError (''relation '' @ name @ '' does not exist'')"

definition no_column :: exn where
  "no_column = DatabaseError ''column does not exist''"

text \<open>
  \<open>INSERT ... ON CONFLICT (target) DO UPDATE SET ...\<close>: when a stored row has the
  proposed row's value in the target column, that row takes the assignments of the
  \<open>SET\<close> list (\<open>EXCLUDED.c\<close> is the proposed row's \<open>c\<close>) and nothing is inserted.
\<close>

fun upsert :: "(row \<Rightarrow> bool) \<Rightarrow> (row \<Rightarrow> row) \<Rightarrow> row list \<Rightarrow> (row list \<times> row) option" where
  "upsert conflicts change [] = None"
| "upsert conflicts change (r # rs) =
     (if conflicts r then Some (change r # rs, change r)
      else (case upsert conflicts change rs of
              None \<Rightarrow> None
            | Some (rs', changed) \<Rightarrow> Some (r # rs', changed)))"

fun assign :: "row \<Rightarrow> nat \<Rightarrow> row \<Rightarrow> string \<times> set_rhs \<Rightarrow> row" where
  "assign proposed now r (c, Excluded c') = r(c := proposed c')"
| "assign proposed now r (c, Now_call) = r(c \<mapsto> VTime now)"

fun rhs_columns :: "(string \<times> set_rhs) list \<Rightarrow> string list" where
  "rhs_columns [] = []"
| "rhs_columns ((c, Excluded c') # sets) = c # c' # rhs_columns sets"
| "rhs_columns ((c, Now_call) # sets) = c # rhs_columns sets"

text \<open>The row an insert proposes: the values of its columns, and a fresh id.\<close>

definition proposed_row :: "insert_query \<Rightarrow> pyval list \<Rightarrow> nat \<Rightarrow> row" where
  "proposed_row q vals fresh = [''id'' \<mapsto> VInt (int fresh)] ++ map_of (zip (q_columns q) vals)"

definition run_insert ::
  "insert_query \<Rightarrow> pyval list \<Rightarrow> nat \<Rightarrow> nat \<Rightarrow> database \<Rightarrow> exn + (database \<times> result_row list)" where
  "run_insert q vals fresh now d =
     (case d (q_table q) of
        None \<Rightarrow> Inl (no_relation (q_table q))
      | Some t \<Rightarrow>
          if \<not> set (q_columns q) \<subseteq> set (t_columns t) \<or> ''id'' \<notin> set (t_columns t)
          then Inl no_column
          else
            let proposed = proposed_row q vals fresh;
                inserted = Inr (d(q_table q \<mapsto> t\<lparr>t_rows := t_rows t @ [proposed]\<rparr>),
                                [[''id'' \<mapsto> proposed ''id'']])
            in (case q_closing q of
                  Returning_id \<Rightarrow> inserted
                | On_conflict target sets \<Rightarrow>
                    if target \<notin> set (t_columns t) \<or> \<not> set (rhs_columns sets) \<subseteq> set (t_columns t)
                    then Inl no_column
                    else (case upsert (\<lambda>r. proposed target \<noteq> None \<and> r target = proposed target)
                                 (\<lambda>r. foldl (assign proposed now) r sets) (t_rows t) of
                            None \<Rightarrow> inserted
                          | Some (rows, changed) \<Rightarrow>
                              Inr (d(q_table q \<mapsto> t\<lparr>t_rows := rows\<rparr>),
                                   [[''id'' \<mapsto> changed ''id'']]))))"

definition run_update ::
  "string \<Rightarrow> string list \<Rightarrow> pyval list \<Rightarrow> pyval option \<Rightarrow> database \<Rightarrow>
   exn + (database \<times> result_row list)" where
  "run_update name cols vals idv d =
     (case d name of
        None \<Rightarrow> Inl (no_relation name)
      | Some t \<Rightarrow>
          if \<not> set cols \<subseteq> set (t_columns t) \<or> ''id'' \<notin> set (t_columns t)
          then Inl no_column
          else Inr (d(name \<mapsto> t\<lparr>t_rows :=
                      map (\<lambda>r. if idv \<noteq> None \<and> r ''id'' = idv then r ++ map_of (zip cols vals) else r)
                          (t_rows t)\<rparr>), []))"

text \<open>
  \<open>SELECT * FROM modules ORDER BY name\<close> is answered in the stored order: the collation
  that sorts the names belongs to the store, and nothing below depends on the order.
\<close>

definition run_select_all :: "string \<Rightarrow> database \<Rightarrow> exn + (database \<times> result_row list)" where
  "run_select_all name d =
     (case d name of
        None \<Rightarrow> Inl (no_relation name)
      | Some t \<Rightarrow> Inr (d, map (fetched t) (t_rows t)))"

definition run_select_where ::
  "string \<Rightarrow> string \<Rightarrow> pyval option \<Rightarrow> database \<Rightarrow> exn + (database \<times> result_row list)" where
  "run_select_where name column v d =
     (case d name of
        None \<Rightarrow> Inl (no_relation name)
      | Some t \<Rightarrow>
          if column \<notin> set (t_columns t) then Inl no_column
          else Inr (d, map (fetched t) (filter (\<lambda>r. v \<noteq> None \<and> r column = v) (t_rows t))))"

text \<open>\<open>SELECT COALESCE(MAX(order_index), 0) + 1 as next_order FROM modules\<close>.\<close>

fun order_indexes :: "row list \<Rightarrow> int list" where
  "order_indexes [] = []"
| "order_indexes (r # rs) =
     (case r ''order_index'' of Some (VInt i) \<Rightarrow> i # order_indexes rs | _ \<Rightarrow> order_indexes rs)"

definition run_select_next_order :: "database \<Rightarrow> exn + (database \<times> result_row list)" where
  "run_select_next_order d =
     (case d ''modules'' of
        None \<Rightarrow> Inl (no_relation ''modules'')
      | Some t \<Rightarrow>
          if ''order_index'' \<notin> set (t_columns t) then Inl no_column
          else Inr (d, [[''next_order'' \<mapsto>
                  Some (VInt ((case order_indexes (t_rows t) of [] \<Rightarrow> 0 | i # is \<Rightarrow> fold max is i) + 1))]]))"

fun run_statement ::
  "statement \<Rightarrow> nat \<Rightarrow> nat \<Rightarrow> database \<Rightarrow> exn + (database \<times> result_row list)" where
  "run_statement (Insert q vals) fresh now d = run_insert q vals fresh now d"
| "run_statement (Update name cols vals idv) fresh now d = run_update name cols vals idv d"
| "run_statement (Select_all name) fresh now d = run_select_all name d"
| "run_statement (Select_where name column v) fresh now d = run_select_where name column v d"
| "run_statement Select_next_order fresh now d = run_select_next_order d"

section \<open>The world outside the scanner\<close>

text \<open>
  Everything the scanner reaches through its collaborators: the committed database, the
  transaction of the open connection, the number of open connections, the clock, the
  date parser of \<open>dateutil\<close>, and the two listings of the storage client, each of which
  may raise. The driver may fail at every connect, execute, commit and rollback:
  \<open>w_fault\<close> says which of these steps, counted by \<open>w_tick\<close>, raises what.
\<close>

record folder =
  fo_id :: string
  fo_name :: string

record world =
  w_db :: database
  w_tx :: "database option"
  w_open :: nat
  w_fault :: "nat \<Rightarrow> exn option"
  w_tick :: nat
  w_next_id :: nat
  w_clock :: nat
  w_parse_date :: "string \<Rightarrow> nat option"
  w_folders :: "exn + folder list"
  w_files :: "pyval option \<Rightarrow> exn + file_data list"

definition attempt :: "world \<Rightarrow> exn option \<times> world" where
  "attempt w = (w_fault w (w_tick w), w\<lparr>w_tick := Suc (w_tick w)\<rparr>)"

definition connect :: "world \<Rightarrow> (exn + unit) \<times> world" where
  "connect w =
     (case attempt w of
        (Some e, w1) \<Rightarrow> (Inl e, w1)
      | (None, w1) \<Rightarrow> (Inr (), w1\<lparr>w_tx := Some (w_db w1), w_open := Suc (w_open w1)\<rparr>))"

definition commit :: "world \<Rightarrow> (exn + unit) \<times> world" where
  "commit w =
     (case attempt w of
        (Some e, w1) \<Rightarrow> (Inl e, w1)
      | (None, w1) \<Rightarrow>
          (case w_tx w1 of
             None \<Rightarrow> (Inl (DatabaseError ''connection already closed''), w1)
           | Some d \<Rightarrow> (Inr (), w1\<lparr>w_db := d\<rparr>)))"

definition rollback :: "world \<Rightarrow> (exn + unit) \<times> world" where
  "rollback w =
     (case attempt w of
        (Some e, w1) \<Rightarrow> (Inl e, w1)
      | (None, w1) \<Rightarrow>
          (case w_tx w1 of
             None \<Rightarrow> (Inl (DatabaseError ''connection already closed''), w1)
           | Some d \<Rightarrow> (Inr (), w1\<lparr>w_tx := Some (w_db w1)\<rparr>)))"

definition close :: "world \<Rightarrow> world" where
  "close w = w\<lparr>w_tx := None, w_open := w_open w - 1\<rparr>"

definition execute :: "statement \<Rightarrow> world \<Rightarrow> (exn + result_row list) \<times> world" where
  "execute stmt w =
     (case attempt w of
        (Some e, w1) \<Rightarrow> (Inl e, w1)
      | (None, w1) \<Rightarrow>
          (case w_tx w1 of
             None \<Rightarrow> (Inl (DatabaseError ''connection already closed''), w1)
           | Some d \<Rightarrow>
               (case run_statement stmt (w_next_id w1) (w_clock w1) d of
                  Inl e \<Rightarrow> (Inl e, w1)
                | Inr (d', rows) \<Rightarrow>
                    (Inr rows, w1\<lparr>w_tx := Some d', w_next_id := Suc (w_next_id w1)\<rparr>))))"

text \<open>
  The \<open>except Exception\<close> clause of \<open>get_connection\<close>: \<open>conn.rollback()\<close>, then
  the bare \<open>raise\<close> of the exception that was caught. When \<open>rollback\<close> raises, as
  it does on a connection that is lost, the bare \<open>raise\<close> is not reached and the
  exception of \<open>rollback\<close> is the one that leaves.
\<close>

definition on_exception :: "exn \<Rightarrow> world \<Rightarrow> exn \<times> world" where
  "on_exception e w =
     (case rollback w of
        (Inl e2, w1) \<Rightarrow> (e2, w1)
      | (Inr u, w1) \<Rightarrow> (e, w1))"

text \<open>
  \<open>get_connection\<close>: connect, before the \<open>try\<close>; run the body of the \<open>with\<close>
  block and commit; an exception of the body or of the commit goes to the \<open>except\<close>
  clause; \<open>finally\<close> closes the connection. \<open>conn.close()\<close> only frees the
  client side of the connection and is taken not to raise. \<open>get_cursor\<close> adds only
  the cursor, which has no state of its own here.
\<close>

definition get_connection :: "(world \<Rightarrow> (exn + 'a) \<times> world) \<Rightarrow> world \<Rightarrow> (exn + 'a) \<times> world" where
  "get_connection body w =
     (case connect w of
        (Inl e, w1) \<Rightarrow> (Inl e, w1)
      | (Inr u, w1) \<Rightarrow>
          (case body w1 of
             (Inl e, w2) \<Rightarrow> (case on_exception e w2 of (e', w3) \<Rightarrow> (Inl e', close w3))
           | (Inr a, w2) \<Rightarrow>
               (case commit w2 of
                  (Inl e, w3) \<Rightarrow> (case on_exception e w3 of (e', w4) \<Rightarrow> (Inl e', close w4))
                | (Inr u', w3) \<Rightarrow> (Inr a, close w3))))"

definition get_cursor :: "(world \<Rightarrow> (exn + 'a) \<times> world) \<Rightarrow> world \<Rightarrow> (exn + 'a) \<times> world" where
  "get_cursor body w = get_connection body w"

text \<open>Sequencing of calls that may raise.\<close>

definition bind ::
  "(world \<Rightarrow> (exn + 'a) \<times> world) \<Rightarrow> ('a \<Rightarrow> world \<Rightarrow> (exn + 'b) \<times> world) \<Rightarrow>
   world \<Rightarrow> (exn + 'b) \<times> world" where
  "bind m f w = (case m w of (Inl e, w1) \<Rightarrow> (Inl e, w1) | (Inr a, w1) \<Rightarrow> f a w1)"

definition lift :: "exn + 'a \<Rightarrow> world \<Rightarrow> (exn + 'a) \<times> world" where
  "lift r w = (r, w)"

section \<open>The entity repository\<close>

text \<open>
  The DAO keeps the schema it discovered when it was built and does not refresh it, so
  every operation takes the schema beside the world.
\<close>

definition discover_schema :: "database \<Rightarrow> table_schemas" where
  "discover_schema d = (\<lambda>name. map_option t_columns (d name))"

text \<open>\<open>self.table_schemas.get(name, {}).get('column_names', [])\<close>.\<close>

definition column_names :: "table_schemas \<Rightarrow> string \<Rightarrow> string list" where
  "column_names schemas name = (case schemas name of None \<Rightarrow> [] | Some cs \<Rightarrow> cs)"

definition fetchone :: "result_row list \<Rightarrow> result_row option" where
  "fetchone rows = (case rows of [] \<Rightarrow> None | r # _ \<Rightarrow> Some r)"

text \<open>\<open>result[key]\<close> on what \<open>fetchone\<close> gave.\<close>

definition item :: "result_row option \<Rightarrow> string \<Rightarrow> exn + pyval option" where
  "item result key =
     (case result of
        None \<Rightarrow> Inl (TypeError ''NoneType object is not subscriptable'')
      | Some r \<Rightarrow> (case r key of None \<Rightarrow> Inl (KeyError key) | Some v \<Rightarrow> Inr v))"

text \<open>
  \<open>query.replace('RETURNING id', clause)\<close>: the closing clause of the built statement
  gives way to the conflict clause (which ends in \<open>RETURNING id\<close> again).
\<close>

definition replace_returning :: "insert_query \<Rightarrow> closing \<Rightarrow> insert_query" where
  "replace_returning q clause = (if q_closing q = Returning_id then q\<lparr>q_closing := clause\<rparr> else q)"

definition insert_returning_id :: "insert_query \<Rightarrow> pyval list \<Rightarrow> world \<Rightarrow> (exn + pyval option) \<times> world" where
  "insert_returning_id query vals =
     get_cursor (bind (execute (Insert query vals)) (\<lambda>rows. lift (item (fetchone rows) ''id'')))"

subsection \<open>Modules\<close>

definition get_all_modules :: "world \<Rightarrow> (exn + result_row list) \<times> world" where
  "get_all_modules = get_cursor (execute (Select_all ''modules''))"

definition get_module_by_drive_folder :: "pyval option \<Rightarrow> world \<Rightarrow> (exn + result_row option) \<times> world" where
  "get_module_by_drive_folder drive_folder_id =
     get_cursor (bind (execute (Select_where ''modules'' ''drive_folder_id'' drive_folder_id))
                      (\<lambda>rows. lift (Inr (fetchone rows))))"

text \<open>
  \<open>str(v)\<close> as an f-string renders it: exact for strings, integers and \<open>None\<close>; the
  other values never reach an f-string as an identifier or a name.
\<close>

fun decimal :: "nat \<Rightarrow> string" where
  "decimal n = (if n < 10 then [char_of (48 + n)] else decimal (n div 10) @ [char_of (48 + n mod 10)])"

fun str_of :: "pyval option \<Rightarrow> string" where
  "str_of None = ''None''"
| "str_of (Some (VStr s)) = s"
| "str_of (Some (VInt i)) = (if i < 0 then CHR ''-'' # decimal (nat (- i)) else decimal (nat i))"
| "str_of (Some (VTime t)) = decimal t"
| "str_of (Some (VSizeMb b)) = decimal (nat b)"
| "str_of (Some (VJsonErrors es)) = concat es"
| "str_of (Some (VJsonError m t)) = m"

text \<open>
  \<open>create_module\<close>. The name reaches \<open>re.search\<close> first, which raises \<open>TypeError\<close> on
  anything but a string.
\<close>

definition create_module ::
  "table_schemas \<Rightarrow> pyval option \<Rightarrow> pyval option \<Rightarrow> pyval option \<Rightarrow> world \<Rightarrow> (exn + pyval option) \<times> world" where
  "create_module schemas name drive_folder_id description =
     (case name of
        Some (VStr n) \<Rightarrow>
          (let code = generate_module_code n
           in bind (get_cursor (bind (execute Select_next_order)
                                     (\<lambda>rows. lift (item (fetchone rows) ''next_order''))))
                (\<lambda>next_order.
                   let module_data =
                         [(''name'', name),
                          (''description'', description),
                          (''code'', Some (VStr code)),
                          (''drive_folder_id'', drive_folder_id),
                          (''order_index'', next_order),
                          (''drive_folder_url'',
                             Some (VStr (''https://drive.google.com/drive/folders/'' @ str_of drive_folder_id)))]
                   in bind (lift (build_insert_query schemas ''modules'' module_data))
                        (\<lambda>(query, vals). insert_returning_id query vals)))
      | _ \<Rightarrow> lift (Inl (TypeError ''expected string or bytes-like object'')))"

subsection \<open>Students\<close>

definition get_student_by_email :: "string \<Rightarrow> world \<Rightarrow> (exn + result_row option) \<times> world" where
  "get_student_by_email email =
     get_cursor (bind (execute (Select_where ''students'' ''email'' (Some (VStr email))))
                      (\<lambda>rows. lift (Inr (fetchone rows))))"

definition student_conflict :: closing where
  "student_conflict =
     On_conflict ''email'' [(''full_name'', Excluded ''full_name''), (''updated_at'', Now_call)]"

text \<open>
  \<open>create_student\<close> first builds its statement, with the conflict clause when the table
  has an \<open>email\<close> column and the address contains an at-sign, then executes it.
\<close>

definition student_query :: "table_schemas \<Rightarrow> string \<Rightarrow> string \<Rightarrow> exn + (insert_query \<times> pyval list)" where
  "student_query schemas name email =
     (let student_data = [(''full_name'', Some (VStr name)), (''email'', Some (VStr email))];
          student_columns = column_names schemas ''students''
      in if ''email'' \<in> set student_columns \<and> email \<noteq> [] \<and> CHR ''@'' \<in> set email
         then (case build_insert_query schemas ''students'' student_data of
                 Inl e \<Rightarrow> Inl e
               | Inr (query, vals) \<Rightarrow> Inr (replace_returning query student_conflict, vals))
         else build_insert_query schemas ''students'' student_data)"

definition create_student :: "table_schemas \<Rightarrow> string \<Rightarrow> string \<Rightarrow> world \<Rightarrow> (exn + pyval option) \<times> world" where
  "create_student schemas name email =
     bind (lift (student_query schemas name email)) (\<lambda>(query, vals). insert_returning_id query vals)"

subsection \<open>Submissions\<close>

text \<open>
  \<open>repr\<close> of a string, as the message of \<open>int\<close> shows it: double quotes when the
  string has a single quote and no double quote, single quotes otherwise; a backslash
  before the quote in use and before a backslash; \<open>\t\<close>, \<open>\n\<close>, \<open>\r\<close>; and
  \<open>\xNN\<close> for the other characters that are not printable.
\<close>

definition hex_digit :: "nat \<Rightarrow> char" where
  "hex_digit n = (if n < 10 then char_of (48 + n) else char_of (87 + n))"

definition is_printable :: "char \<Rightarrow> bool" where
  "is_printable c = (between 0x20 0x7E c \<or> (between 0xA1 0xFF c \<and> code_point c \<noteq> 0xAD))"

definition repr_char :: "char \<Rightarrow> char \<Rightarrow> string" where
  "repr_char quote c =
     (if c = quote \<or> c = CHR 0x5C then [CHR 0x5C, c]
      else if c = CHR 0x09 then [CHR 0x5C, CHR ''t'']
      else if c = CHR 0x0A then [CHR 0x5C, CHR ''n'']
      else if c = CHR 0x0D then [CHR 0x5C, CHR ''r'']
      else if is_printable c then [c]
      else [CHR 0x5C, CHR ''x'', hex_digit (code_point c div 16), hex_digit (code_point c mod 16)])"

definition repr :: "string \<Rightarrow> string" where
  "repr s =
     (let quote = (if CHR 0x27 \<in> set s \<and> CHR 0x22 \<notin> set s then CHR 0x22 else CHR 0x27)
      in [quote] @ concat (map (repr_char quote) s) @ [quote])"

text \<open>
  \<open>int(s)\<close> on a string: optional blanks around, an optional sign, digits with single
  underscores between them. The blanks \<open>int\<close> accepts are those of \<open>str.isspace\<close> but
  the four separators U+001C to U+001F.
\<close>

definition is_int_blank :: "char \<Rightarrow> bool" where
  "is_int_blank c = (is_space c \<and> \<not> between 0x1C 0x1F c)"

fun parse_digits :: "nat \<Rightarrow> bool \<Rightarrow> string \<Rightarrow> nat option" where
  "parse_digits acc after_digit [] = (if after_digit then Some acc else None)"
| "parse_digits acc after_digit (c # cs) =
     (if is_digit c then parse_digits (acc * 10 + (code_point c - 48)) True cs
      else if c = CHR ''_'' \<and> after_digit \<and> cs \<noteq> [] then parse_digits acc False cs
      else None)"

definition py_int :: "string \<Rightarrow> exn + int" where
  "py_int s =
     (let parsed =
            (case rev (dropWhile is_int_blank (rev (dropWhile is_int_blank s))) of
               [] \<Rightarrow> None
             | c # cs \<Rightarrow>
                 if c = CHR ''-'' then map_option (\<lambda>n. - int n) (parse_digits 0 False cs)
                 else if c = CHR ''+'' then map_option int (parse_digits 0 False cs)
                 else map_option int (parse_digits 0 False (c # cs)))
      in case parsed of
           None \<Rightarrow> Inl (ValueError (''invalid literal for int() with base 10: '' @ repr s))
         | Some i \<Rightarrow> Inr i)"

definition parse_drive_timestamp :: "(string \<Rightarrow> nat option) \<Rightarrow> string option \<Rightarrow> pyval option" where
  "parse_drive_timestamp parse_date timestamp_str =
     (case timestamp_str of
        None \<Rightarrow> None
      | Some s \<Rightarrow> if s = [] then None else map_option VTime (parse_date s))"

definition file_extension :: "string \<Rightarrow> string" where
  "file_extension filename =
     (if CHR ''.'' \<in> set filename
      then (let extension = lower (rev (takeWhile (\<lambda>c. c \<noteq> CHR ''.'') (rev filename)))
            in if extension \<noteq> [] then take 50 extension else ''unknown'')
      else ''noext'')"

definition drive_mapping :: "file_data \<Rightarrow> int \<Rightarrow> (string \<Rightarrow> nat option) \<Rightarrow> nat \<Rightarrow> (string \<times> pyval option) list" where
  "drive_mapping fd size_bytes parse_date now =
     [(''file_id'', map_option VStr (f_id fd)),
      (''filename'', map_option VStr (f_name fd)),
      (''mime_type'', map_option VStr (f_mimeType fd)),
      (''size_bytes'', Some (VInt size_bytes)),
      (''drive_url'', Some (VStr (''https://drive.google.com/file/d/'' @ get_or (f_id fd) ''None'' @ ''/view''))),
      (''created_time'', parse_drive_timestamp parse_date (f_createdTime fd)),
      (''modified_time'', parse_drive_timestamp parse_date (f_modifiedTime fd)),
      (''detected_at'', Some (VTime now))]
     @ (case f_lastModifyingUser fd of
          None \<Rightarrow> []
        | Some user \<Rightarrow> [(''uploaded_by_email'', map_option VStr (u_emailAddress user))])
     @ (case f_owners fd of
          Some (owner # _) \<Rightarrow> [(''owner_email'', map_option VStr (u_emailAddress owner))]
        | _ \<Rightarrow> [])
     @ (if size_bytes \<noteq> 0 then [(''size_mb'', Some (VSizeMb size_bytes))] else [])
     @ (case f_name fd of
          None \<Rightarrow> []
        | Some filename \<Rightarrow>
            if filename \<noteq> [] then [(''file_extension'', Some (VStr (file_extension filename)))] else [])"

definition submission_conflict :: closing where
  "submission_conflict =
     On_conflict ''file_id''
       [(''filename'', Excluded ''filename''),
        (''size_bytes'', Excluded ''size_bytes''),
        (''modified_time'', Excluded ''modified_time''),
        (''detected_at'', Now_call)]"

text \<open>
  \<open>create_submission\<close>: \<open>int(file_data.get('size', 0))\<close> may raise; the fields of the
  mapping that are columns join \<open>module_id\<close> and \<open>student_id\<close>; the conflict clause is
  added when the table has a \<open>file_id\<close> column.
\<close>

definition submission_data ::
  "string list \<Rightarrow> pyval option \<Rightarrow> pyval option \<Rightarrow> (string \<times> pyval option) list \<Rightarrow>
   (string \<times> pyval option) list" where
  "submission_data submission_columns module_id student_id mapping =
     [(''module_id'', module_id), (''student_id'', student_id)]
     @ filter (\<lambda>(key, v). key \<in> set submission_columns) mapping"

definition submission_query ::
  "table_schemas \<Rightarrow> pyval option \<Rightarrow> pyval option \<Rightarrow> file_data \<Rightarrow> (string \<Rightarrow> nat option) \<Rightarrow> nat \<Rightarrow>
   exn + (insert_query \<times> pyval list)" where
  "submission_query schemas module_id student_id fd parse_date now =
     (case (case f_size fd of None \<Rightarrow> Inr 0 | Some s \<Rightarrow> py_int s) of
        Inl e \<Rightarrow> Inl e
      | Inr size_bytes \<Rightarrow>
          (let mapping = drive_mapping fd size_bytes parse_date now;
               submission_columns = column_names schemas ''submissions'';
               data = submission_data submission_columns module_id student_id mapping
           in (case build_insert_query schemas ''submissions'' data of
                 Inl e \<Rightarrow> Inl e
               | Inr (query, vals) \<Rightarrow>
                   Inr (if ''file_id'' \<in> set submission_columns
                        then replace_returning query submission_conflict else query, vals))))"

definition create_submission ::
  "table_schemas \<Rightarrow> pyval option \<Rightarrow> pyval option \<Rightarrow> file_data \<Rightarrow> world \<Rightarrow> (exn + pyval option) \<times> world" where
  "create_submission schemas module_id student_id fd w =
     bind (lift (submission_query schemas module_id student_id fd (w_parse_date w) (w_clock w)))
          (\<lambda>(query, vals). insert_returning_id query vals) w"

subsection \<open>Sync logs\<close>

definition create_sync_log :: "table_schemas \<Rightarrow> string \<Rightarrow> world \<Rightarrow> (exn + pyval option) \<times> world" where
  "create_sync_log schemas sync_type w =
     (let sync_data =
            [(''sync_type'', Some (VStr sync_type)),
             (''status'', Some (VStr ''running'')),
             (''started_at'', Some (VTime (w_clock w)))]
      in bind (lift (build_insert_query schemas ''sync_logs'' sync_data))
           (\<lambda>(query, vals). insert_returning_id query vals) w)"

record sync_kwargs =
  kw_files_processed :: "pyval option"
  kw_errors :: "pyval option"
  kw_error_details :: "pyval option"

definition optional_fields :: "string \<Rightarrow> sync_kwargs \<Rightarrow> nat \<Rightarrow> (string \<times> pyval option) list" where
  "optional_fields status kwargs now =
     [(''files_processed'', kw_files_processed kwargs),
      (''errors'', kw_errors kwargs),
      (''error_details'', kw_error_details kwargs),
      (''completed_at'', if status \<in> set [''completed'', ''failed''] then Some (VTime now) else None)]"

fun update_loop ::
  "string list \<Rightarrow> (string \<times> pyval option) list \<Rightarrow> string list \<times> pyval list \<Rightarrow> string list \<times> pyval list" where
  "update_loop sync_columns [] acc = acc"
| "update_loop sync_columns ((field, vo) # rest) (update_fields, vals) =
     (case vo of
        Some v \<Rightarrow>
          (if field \<in> set sync_columns
           then update_loop sync_columns rest (update_fields @ [field], vals @ [v])
           else update_loop sync_columns rest (update_fields, vals))
      | None \<Rightarrow> update_loop sync_columns rest (update_fields, vals))"

definition sync_log_update ::
  "table_schemas \<Rightarrow> string \<Rightarrow> sync_kwargs \<Rightarrow> nat \<Rightarrow> string list \<times> pyval list" where
  "sync_log_update schemas status kwargs now =
     update_loop (column_names schemas ''sync_logs'') (optional_fields status kwargs now)
       ([''status''], [VStr status])"

definition update_sync_log ::
  "table_schemas \<Rightarrow> pyval option \<Rightarrow> string \<Rightarrow> sync_kwargs \<Rightarrow> world \<Rightarrow> (exn + unit) \<times> world" where
  "update_sync_log schemas sync_id status kwargs w =
     (case sync_log_update schemas status kwargs (w_clock w) of
        (update_fields, vals) \<Rightarrow>
          get_cursor (bind (execute (Update ''sync_logs'' update_fields vals sync_id))
                           (\<lambda>rows. lift (Inr ()))) w)"

section \<open>The scan orchestrator\<close>

subsection \<open>Synchronising the module folders\<close>

record sync_stats =
  modules_processed :: nat
  modules_created :: nat
  modules_existing :: nat
  sync_errors :: "string list"

text \<open>
  \<open>sync_modules_to_db\<close> returns its counters, or, when the listing of the root folder
  raises, a dictionary with the key \<open>error\<close> and no key \<open>errors\<close>.
\<close>

datatype sync_results = Sync_done sync_stats | Sync_failed string

definition sync_folder :: "table_schemas \<Rightarrow> folder \<Rightarrow> sync_stats \<times> world \<Rightarrow> sync_stats \<times> world" where
  "sync_folder schemas module_folder acc =
     (case acc of (results, w) \<Rightarrow>
        let module_name = fo_name module_folder;
            drive_folder_id = Some (VStr (fo_id module_folder));
            failed = (\<lambda>e w'.
              (results\<lparr>sync_errors := sync_errors results
                          @ [''Error procesando '' @ module_name @ '': '' @ exn_str e]\<rparr>, w'))
        in (case get_module_by_drive_folder drive_folder_id w of
              (Inl e, w1) \<Rightarrow> failed e w1
            | (Inr (Some existing_module), w1) \<Rightarrow>
                (case item (Some existing_module) ''id'' of
                   Inl e \<Rightarrow> failed e w1
                 | Inr module_id \<Rightarrow>
                     (results\<lparr>modules_existing := modules_existing results + 1,
                              modules_processed := modules_processed results + 1\<rparr>, w1))
            | (Inr None, w1) \<Rightarrow>
                (case create_module schemas (Some (VStr module_name)) drive_folder_id
                        (Some (VStr (''M'' @ [CHR 0xF3] @ ''dulo desde Google Drive: '' @ module_name))) w1 of
                   (Inl e, w2) \<Rightarrow>
                     (results\<lparr>sync_errors := sync_errors results
                                 @ [''Error creando '' @ module_name @ '': '' @ exn_str e],
                              modules_processed := modules_processed results + 1\<rparr>, w2)
                 | (Inr module_id, w2) \<Rightarrow>
                     (results\<lparr>modules_created := modules_created results + 1,
                              modules_processed := modules_processed results + 1\<rparr>, w2))))"

definition sync_modules_to_db :: "table_schemas \<Rightarrow> world \<Rightarrow> sync_results \<times> world" where
  "sync_modules_to_db schemas w =
     (case w_folders w of
        Inl e \<Rightarrow> (Sync_failed (''Error en sincronizaci'' @ [CHR 0xF3] @ ''n: '' @ exn_str e), w)
      | Inr drive_modules \<Rightarrow>
          (case fold (sync_folder schemas) drive_modules
                  (\<lparr>modules_processed = 0, modules_created = 0, modules_existing = 0,
                    sync_errors = []\<rparr>, w) of
             (results, w') \<Rightarrow> (Sync_done results, w')))"

subsection \<open>Scanning one module\<close>

record module_stats =
  ms_module_id :: "pyval option"
  ms_module_name :: "pyval option"
  ms_drive_folder_id :: "pyval option"
  ms_files_found :: nat
  ms_files_processed :: nat
  ms_students_created :: nat
  ms_submissions_created :: nat
  ms_submissions_updated :: nat
  ms_errors :: "string list"

datatype scan_result = Scan_done module_stats | Scan_failed string

text \<open>
  The body of the loop over the files. Reading \<open>file_data['name']\<close> for the log raises
  \<open>KeyError\<close> on a file without a name, which the handler of the loop counts as
  processed. A file that is not identified is skipped.
\<close>

definition scan_file ::
  "table_schemas \<Rightarrow> pyval option \<Rightarrow> file_data \<Rightarrow> module_stats \<times> world \<Rightarrow> module_stats \<times> world" where
  "scan_file schemas module_id fd acc =
     (case acc of (results, w) \<Rightarrow>
        (case f_name fd of
           None \<Rightarrow>
             (results\<lparr>ms_errors := ms_errors results
                         @ [''Error archivo Unknown: '' @ exn_str (KeyError ''name'')],
                      ms_files_processed := ms_files_processed results + 1\<rparr>, w)
         | Some file_name \<Rightarrow>
             (case identify_student_from_file fd of
                None \<Rightarrow> (results, w)
              | Some (student_name, student_email) \<Rightarrow>
                  (let student_failed = (\<lambda>e w'.
                         (results\<lparr>ms_errors := ms_errors results
                                     @ [''Error estudiante '' @ student_name @ '': '' @ exn_str e]\<rparr>, w'))
                   in (case create_student schemas student_name student_email w of
                         (Inl e, w1) \<Rightarrow> student_failed e w1
                       | (Inr student_id, w1) \<Rightarrow>
                           (case get_student_by_email student_email w1 of
                              (Inl e, w2) \<Rightarrow> student_failed e w2
                            | (Inr found, w2) \<Rightarrow>
                                (let results1 =
                                       (if found \<noteq> None then results
                                        else results\<lparr>ms_students_created := ms_students_created results + 1\<rparr>)
                                 in (case create_submission schemas module_id student_id fd w2 of
                                       (Inl e, w3) \<Rightarrow>
                                         (results1\<lparr>ms_errors := ms_errors results1
                                            @ [''Error submission '' @ file_name @ '': '' @ exn_str e]\<rparr>, w3)
                                     | (Inr submission_id, w3) \<Rightarrow>
                                         (results1\<lparr>ms_submissions_created := ms_submissions_created results1 + 1,
                                                   ms_files_processed := ms_files_processed results1 + 1\<rparr>,
                                          w3)))))))))"

text \<open>Truth of a value under \<open>or\<close>, and \<open>dict.get\<close> on a fetched row.\<close>

fun truthy :: "pyval option \<Rightarrow> bool" where
  "truthy None = False"
| "truthy (Some (VStr s)) = (s \<noteq> [])"
| "truthy (Some (VInt i)) = (i \<noteq> 0)"
| "truthy (Some v) = True"

definition row_get :: "result_row \<Rightarrow> string \<Rightarrow> pyval option" where
  "row_get r key = (case r key of None \<Rightarrow> None | Some v \<Rightarrow> v)"

text \<open>
  The first part of \<open>scan_module_smart\<close>: the name, the folder and the id of the module,
  from a row of the database (it has a key \<open>drive_folder_id\<close> or \<open>folder_id\<close>) or from a
  folder of the storage client.
\<close>

definition resolve_module ::
  "table_schemas \<Rightarrow> result_row \<Rightarrow> world \<Rightarrow> (exn + (pyval option \<times> pyval option \<times> pyval option)) \<times> world" where
  "resolve_module schemas module_data =
     (if module_data ''drive_folder_id'' \<noteq> None \<or> module_data ''folder_id'' \<noteq> None
      then bind (lift (item (Some module_data) ''name'')) (\<lambda>module_name.
             let drive_folder_id =
                   (if truthy (row_get module_data ''drive_folder_id'')
                    then row_get module_data ''drive_folder_id''
                    else row_get module_data ''folder_id'')
             in bind (lift (item (Some module_data) ''id'')) (\<lambda>module_id.
                  lift (Inr (module_name, drive_folder_id, module_id))))
      else bind (lift (item (Some module_data) ''name'')) (\<lambda>module_name.
           bind (lift (item (Some module_data) ''id'')) (\<lambda>drive_folder_id.
           bind (get_module_by_drive_folder drive_folder_id) (\<lambda>existing_module.
             (case existing_module of
                Some existing \<Rightarrow>
                  bind (lift (item (Some existing) ''id'')) (\<lambda>module_id.
                    lift (Inr (module_name, drive_folder_id, module_id)))
              | None \<Rightarrow>
                  bind (create_module schemas module_name drive_folder_id
                          (Some (VStr (''Auto-creado durante escaneo: '' @ str_of module_name))))
                    (\<lambda>module_id. lift (Inr (module_name, drive_folder_id, module_id))))))))"

definition scan_module_smart :: "table_schemas \<Rightarrow> result_row \<Rightarrow> world \<Rightarrow> scan_result \<times> world" where
  "scan_module_smart schemas module_data w =
     (let failed = (\<lambda>e w'.
            (Scan_failed (''Error escaneando m'' @ [CHR 0xF3] @ ''dulo ''
                          @ (case module_data ''name'' of None \<Rightarrow> ''Unknown'' | Some v \<Rightarrow> str_of v)
                          @ '': '' @ exn_str e), w'))
      in (case resolve_module schemas module_data w of
            (Inl e, w1) \<Rightarrow> failed e w1
          | (Inr (module_name, drive_folder_id, module_id), w1) \<Rightarrow>
              (case w_files w1 drive_folder_id of
                 Inl e \<Rightarrow> failed e w1
               | Inr files \<Rightarrow>
                   (case fold (scan_file schemas module_id) files
                           (\<lparr>ms_module_id = module_id, ms_module_name = module_name,
                             ms_drive_folder_id = drive_folder_id, ms_files_found = length files,
                             ms_files_processed = 0, ms_students_created = 0,
                             ms_submissions_created = 0, ms_submissions_updated = 0,
                             ms_errors = []\<rparr>, w1) of
                      (results, w2) \<Rightarrow> (Scan_done results, w2)))))"

subsection \<open>The full scan\<close>

record module_detail =
  md_name :: "pyval option"
  md_files :: nat
  md_submissions :: nat
  md_students :: nat
  md_errors :: nat

record full_results =
  fr_sync_id :: "pyval option"
  fr_sync_results :: sync_results
  fr_total_modules :: nat
  fr_modules_scanned :: nat
  fr_total_files :: nat
  fr_total_submissions :: nat
  fr_total_students :: nat
  fr_errors :: "string list"
  fr_module_details :: "module_detail list"

text \<open>
  What \<open>full_adaptive_scan\<close> hands to its caller: the results, the dictionary with the
  single key \<open>error\<close>, or an exception that leaves the function.
\<close>

datatype scan_outcome = Returned full_results | Returned_error string | Raised exn

text \<open>\<open>sync_results.get('errors', [])\<close>.\<close>

definition sync_errors_of :: "sync_results \<Rightarrow> string list" where
  "sync_errors_of r = (case r of Sync_done s \<Rightarrow> sync_errors s | Sync_failed msg \<Rightarrow> [])"

text \<open>
  The body of the loop over the modules. The errors of the files of a module stay in
  the result of that module; only their number goes to \<open>module_details\<close>.
\<close>

definition scan_one :: "table_schemas \<Rightarrow> result_row \<Rightarrow> full_results \<times> world \<Rightarrow> full_results \<times> world" where
  "scan_one schemas module acc =
     (case acc of (full_results, w) \<Rightarrow>
        (case module ''name'' of
           None \<Rightarrow>
             (full_results\<lparr>fr_errors := fr_errors full_results
                 @ [''Error m'' @ [CHR 0xF3] @ ''dulo Unknown: '' @ exn_str (KeyError ''name'')]\<rparr>, w)
         | Some name \<Rightarrow>
             (case scan_module_smart schemas module w of
                (Scan_done scan_result, w1) \<Rightarrow>
                  (full_results
                     \<lparr>fr_modules_scanned := fr_modules_scanned full_results + 1,
                      fr_total_files := fr_total_files full_results + ms_files_found scan_result,
                      fr_total_submissions :=
                        fr_total_submissions full_results + ms_submissions_created scan_result,
                      fr_total_students := fr_total_students full_results + ms_students_created scan_result,
                      fr_module_details := fr_module_details full_results
                        @ [\<lparr>md_name = ms_module_name scan_result,
                            md_files = ms_files_found scan_result,
                            md_submissions = ms_submissions_created scan_result,
                            md_students = ms_students_created scan_result,
                            md_errors = length (ms_errors scan_result)\<rparr>]\<rparr>, w1)
              | (Scan_failed msg, w1) \<Rightarrow>
                  (full_results\<lparr>fr_errors := fr_errors full_results @ [msg]\<rparr>, w1))))"

text \<open>
  \<open>full_results['errors']\<close> is the very list \<open>sync_results['errors']\<close>, so what the
  loop appends shows in both; \<open>share_errors\<close> writes the final list back.
\<close>

definition share_errors :: "full_results \<Rightarrow> full_results" where
  "share_errors fr =
     (case fr_sync_results fr of
        Sync_done s \<Rightarrow> fr\<lparr>fr_sync_results := Sync_done (s\<lparr>sync_errors := fr_errors fr\<rparr>)\<rparr>
      | Sync_failed msg \<Rightarrow> fr)"

definition final_status :: "full_results \<Rightarrow> string" where
  "final_status fr = (if fr_errors fr = [] then ''completed'' else ''completed_with_errors'')"

definition final_kwargs :: "full_results \<Rightarrow> sync_kwargs" where
  "final_kwargs fr =
     \<lparr>kw_files_processed = Some (VInt (int (fr_total_files fr))),
      kw_errors = Some (VInt (int (length (fr_errors fr)))),
      kw_error_details =
        (if fr_errors fr \<noteq> [] then Some (VJsonErrors (take 3 (fr_errors fr))) else None)\<rparr>"

text \<open>Steps 1 to 4 of the \<open>try\<close> block, after the sync log exists.\<close>

definition scan_steps :: "table_schemas \<Rightarrow> pyval option \<Rightarrow> world \<Rightarrow> (exn + full_results) \<times> world" where
  "scan_steps schemas sync_id w =
     (case sync_modules_to_db schemas w of
        (sync_results, w1) \<Rightarrow>
          (case get_all_modules w1 of
             (Inl e, w2) \<Rightarrow> (Inl e, w2)
           | (Inr modules, w2) \<Rightarrow>
               (case fold (scan_one schemas) modules
                       (\<lparr>fr_sync_id = sync_id, fr_sync_results = sync_results,
                         fr_total_modules = length modules, fr_modules_scanned = 0,
                         fr_total_files = 0, fr_total_submissions = 0, fr_total_students = 0,
                         fr_errors = sync_errors_of sync_results, fr_module_details = []\<rparr>, w2) of
                  (full_results, w3) \<Rightarrow>
                    (case update_sync_log schemas sync_id (final_status full_results)
                            (final_kwargs full_results) w3 of
                       (Inl e, w4) \<Rightarrow> (Inl e, w4)
                     | (Inr u, w4) \<Rightarrow> (Inr (share_errors full_results), w4)))))"

definition run_error_msg :: "exn \<Rightarrow> string" where
  "run_error_msg e = ''Error en escaneo completo: '' @ exn_str e"

definition full_adaptive_scan :: "table_schemas \<Rightarrow> world \<Rightarrow> scan_outcome \<times> world" where
  "full_adaptive_scan schemas w =
     (case create_sync_log schemas ''full_adaptive_scan'' w of
        (Inl e, w1) \<Rightarrow> (Returned_error (run_error_msg e), w1)
      | (Inr sync_id, w1) \<Rightarrow>
          (case scan_steps schemas sync_id w1 of
             (Inr full_results, w2) \<Rightarrow> (Returned full_results, w2)
           | (Inl e, w2) \<Rightarrow>
               (case update_sync_log schemas sync_id ''failed''
                       \<lparr>kw_files_processed = None, kw_errors = None,
                        kw_error_details = Some (VJsonError (run_error_msg e) (w_clock w2))\<rparr> w2 of
                  (Inl e2, w3) \<Rightarrow> (Raised e2, w3)
                | (Inr u, w3) \<Rightarrow> (Returned_error (run_error_msg e), w3))))"

section \<open>Notions for the statements\<close>

text \<open>
  A body runs inside the transaction when it leaves the committed database and the
  count of open connections alone, as every body does that only executes statements.
\<close>

definition in_transaction :: "(world \<Rightarrow> (exn + 'a) \<times> world) \<Rightarrow> bool" where
  "in_transaction body =
     (\<forall>w. w_db (snd (body w)) = w_db w \<and> w_open (snd (body w)) = w_open w)"

text \<open>
  Notions for step 4 of the identification. The metadata gives no address when neither
  the last modifying user nor the first owner has one with an at-sign. The candidates
  are the cleaned first groups of the patterns that match the filename, in the order
  of the patterns. A candidate passes the stoplist when it has more than two
  characters, its lower-case form is none of the six words, and it contains none of
  the three spellings of the module word.
\<close>

definition no_metadata_address :: "file_data \<Rightarrow> bool" where
  "no_metadata_address fd =
     ((case f_lastModifyingUser fd of
         None \<Rightarrow> True
       | Some user \<Rightarrow> CHR ''@'' \<notin> set (get_or (u_emailAddress user) []))
      \<and> (case f_owners fd of
            Some (owner # rest) \<Rightarrow> CHR ''@'' \<notin> set (get_or (u_emailAddress owner) [])
          | _ \<Rightarrow> True))"

definition candidates :: "regex list \<Rightarrow> string \<Rightarrow> string list" where
  "candidates patterns filename =
     concat (map (\<lambda>pattern. case re_search pattern True filename of
                               None \<Rightarrow> []
                             | Some m \<Rightarrow> [clean_candidate (group m 1)]) patterns)"

definition passes_stoplist :: "string \<Rightarrow> bool" where
  "passes_stoplist name =
     (2 < length name
      \<and> lower name \<notin> {''modulo'', modulo_acc, ''dulo'', ''ejercicio'', ''tarea'', ''test''}
      \<and> \<not> contains ''modulo'' (lower name)
      \<and> \<not> contains modulo_acc (lower name)
      \<and> \<not> contains ''dulo'' (lower name))"

text \<open>The rows of two tables, and the addresses of the students that contain an at-sign.\<close>

definition sync_log_rows :: "database \<Rightarrow> row list" where
  "sync_log_rows d = (case d ''sync_logs'' of None \<Rightarrow> [] | Some t \<Rightarrow> t_rows t)"

definition student_rows :: "database \<Rightarrow> row list" where
  "student_rows d = (case d ''students'' of None \<Rightarrow> [] | Some t \<Rightarrow> t_rows t)"

definition email_of :: "row \<Rightarrow> string list" where
  "email_of r =
     (case r ''email'' of
        Some (VStr e) \<Rightarrow> if CHR ''@'' \<in> set e then [e] else []
      | _ \<Rightarrow> [])"

definition valid_emails :: "database \<Rightarrow> string list" where
  "valid_emails d = concat (map email_of (student_rows d))"

text \<open>
  The sync log has a row with a given id. A statement is harmless for that row when it
  assigns no \<open>id\<close>: every statement of the DAO is.
\<close>

definition has_sync_row :: "pyval option \<Rightarrow> database \<Rightarrow> bool" where
  "has_sync_row sid d = (\<exists>row \<in> set (sync_log_rows d). row ''id'' = sid)"

definition harmless :: "statement \<Rightarrow> bool" where
  "harmless stmt =
     (case stmt of
        Insert q vals \<Rightarrow>
          (case q_closing q of
             Returning_id \<Rightarrow> True
           | On_conflict target sets \<Rightarrow> ''id'' \<notin> fst ` set sets)
      | Update name cols vals idv \<Rightarrow> ''id'' \<notin> set cols
      | _ \<Rightarrow> True)"

text \<open>A call keeps the row: if the row is there before the call, it is there after it.\<close>

definition keeps_row :: "pyval option \<Rightarrow> (world \<Rightarrow> 'a \<times> world) \<Rightarrow> bool" where
  "keeps_row sid m =
     (\<forall>w. has_sync_row sid (w_db w) \<longrightarrow> has_sync_row sid (w_db (snd (m w))))"

section \<open>A sample store\<close>

text \<open>
  A small database with the four tables, one module and no student, and a world around
  it in which nothing fails: one folder, holding one file whose metadata names its
  last modifying user.
\<close>

definition sample_db :: database where
  "sample_db =
     [''modules'' \<mapsto>
        \<lparr>t_columns = [''id'', ''name'', ''code'', ''drive_folder_id'', ''order_index''],
         t_rows = [[''id'' \<mapsto> VInt 1, ''name'' \<mapsto> VStr ''Modulo 1'', ''code'' \<mapsto> VStr ''MOD01'',
                    ''drive_folder_id'' \<mapsto> VStr ''D1'', ''order_index'' \<mapsto> VInt 1]]\<rparr>,
      ''students'' \<mapsto>
        \<lparr>t_columns = [''id'', ''full_name'', ''email'', ''updated_at''], t_rows = []\<rparr>,
      ''submissions'' \<mapsto>
        \<lparr>t_columns = [''id'', ''module_id'', ''student_id'', ''file_id'', ''filename'',
                      ''size_bytes'', ''modified_time'', ''detected_at''],
         t_rows = []\<rparr>,
      ''sync_logs'' \<mapsto>
        \<lparr>t_columns = [''id'', ''sync_type'', ''status'', ''started_at'', ''completed_at'',
                      ''files_processed'', ''errors'', ''error_details''],
         t_rows = []\<rparr>]"

definition sample_schemas :: table_schemas where
  "sample_schemas = discover_schema sample_db"

definition sample_file :: file_data where
  "sample_file =
     \<lparr>f_id = Some ''F123'', f_name = Some ''a.png'', f_mimeType = Some ''image/png'',
      f_size = Some ''2048'', f_createdTime = None, f_modifiedTime = None,
      f_lastModifyingUser = Some \<lparr>u_emailAddress = Some ''luz@uni.edu'', u_displayName = Some ''Luz''\<rparr>,
      f_owners = None\<rparr>"

definition sample_world :: world where
  "sample_world =
     \<lparr>w_db = sample_db, w_tx = None, w_open = 0, w_fault = (\<lambda>n. None), w_tick = 0,
      w_next_id = 100, w_clock = 1000, w_parse_date = (\<lambda>s. None),
      w_folders = Inr [\<lparr>fo_id = ''D1'', fo_name = ''Modulo 1''\<rparr>],
      w_files = (\<lambda>folder_id. if folder_id = Some (VStr ''D1'') then Inr [sample_file] else Inr [])\<rparr>"

text \<open>A file with one address in its metadata and another in its name.\<close>

definition two_emails_file :: file_data where
  "two_emails_file =
     \<lparr>f_id = Some ''F1'', f_name = Some ''ana@mail.com 2.pdf'', f_mimeType = None, f_size = None,
      f_createdTime = None, f_modifiedTime = None,
      f_lastModifyingUser = Some \<lparr>u_emailAddress = Some ''luz@uni.edu'', u_displayName = Some ''Luz''\<rparr>,
      f_owners = None\<rparr>"

text \<open>A file whose name repeats the module word where a student's name would be.\<close>

definition module_named_file :: file_data where
  "module_named_file =
     \<lparr>f_id = Some ''F2'', f_name = Some ''Modulo7_Modulo_01.jpg'', f_mimeType = None, f_size = None,
      f_createdTime = None, f_modifiedTime = None,
      f_lastModifyingUser = Some \<lparr>u_emailAddress = Some ''x@y.z'', u_displayName = Some ''X''\<rparr>,
      f_owners = None\<rparr>"

text \<open>Variations of the sample world.\<close>

definition stored_table :: table where
  "stored_table =
     \<lparr>t_columns = [''id'', ''module_id'', ''student_id'', ''file_id'', ''filename'',
                   ''size_bytes'', ''modified_time'', ''detected_at''],
      t_rows = [[''id'' \<mapsto> VInt 50, ''module_id'' \<mapsto> VInt 1, ''student_id'' \<mapsto> VInt 5,
                 ''file_id'' \<mapsto> VStr ''F123'', ''filename'' \<mapsto> VStr ''a.png'',
                 ''size_bytes'' \<mapsto> VInt 100, ''detected_at'' \<mapsto> VTime 10]]\<rparr>"

definition stored_world :: world where
  "stored_world = sample_world\<lparr>w_db := sample_db(''submissions'' \<mapsto> stored_table)\<rparr>"

definition enrolled_world :: world where
  "enrolled_world =
     sample_world\<lparr>w_db := sample_db(''students'' \<mapsto>
       \<lparr>t_columns = [''id'', ''full_name'', ''email'', ''updated_at''],
        t_rows = [[''id'' \<mapsto> VInt 5, ''full_name'' \<mapsto> VStr ''L. Paz'',
                   ''email'' \<mapsto> VStr ''luz@uni.edu'']]\<rparr>)\<rparr>"

definition running_world :: world where
  "running_world =
     sample_world\<lparr>w_db := sample_db(''sync_logs'' \<mapsto>
       \<lparr>t_columns = [''id'', ''sync_type'', ''status'', ''started_at'', ''completed_at'',
                     ''files_processed'', ''errors'', ''error_details''],
        t_rows = [[''id'' \<mapsto> VInt 7, ''sync_type'' \<mapsto> VStr ''full_adaptive_scan'',
                   ''status'' \<mapsto> VStr ''running'', ''started_at'' \<mapsto> VTime 900]]\<rparr>)\<rparr>"

definition two_errors :: sync_kwargs where
  "two_errors =
     \<lparr>kw_files_processed = Some (VInt 3), kw_errors = Some (VInt 2),
      kw_error_details = Some (VJsonErrors [''first'', ''second''])\<rparr>"

text \<open>
  The store rejects the statement of \<open>create_submission\<close> (step 16 of the driver
  in the sample run, counted from 0); the listing of the root folder fails; the
  listing of the files of the module fails; the store is lost after the sync log was
  created, so that reading the modules and marking the run failed both raise (or only
  the first of them); the store cannot be reached at all; the commit of the first unit
  fails; the connection is lost while the first statement runs, so that the rollback
  raises as well.
\<close>

definition rejecting_world :: world where
  "rejecting_world =
     sample_world\<lparr>w_fault := (\<lambda>n. if n = 16
        then Some (DatabaseError ''value too long for type character varying(50)'') else None)\<rparr>"

definition rootless_world :: world where
  "rootless_world = sample_world\<lparr>w_folders := Inl (HttpError ''root folder not found'')\<rparr>"

definition unlisted_world :: world where
  "unlisted_world = sample_world\<lparr>w_files := (\<lambda>folder_id. Inl (HttpError ''listing failed''))\<rparr>"

definition outage_world :: world where
  "outage_world =
     sample_world\<lparr>w_folders := Inr [],
       w_fault := (\<lambda>n. if n = 3 then Some (DatabaseError ''connection lost'')
                        else if n = 4 then Some (DatabaseError ''connection refused'') else None)\<rparr>"

definition brief_outage_world :: world where
  "brief_outage_world =
     sample_world\<lparr>w_folders := Inr [],
       w_fault := (\<lambda>n. if n = 3 then Some (DatabaseError ''connection lost'') else None)\<rparr>"

definition down_world :: world where
  "down_world =
     sample_world\<lparr>w_fault := (\<lambda>n. if n = 0 then Some (DatabaseError ''could not connect'') else None)\<rparr>"

definition commit_fails_world :: world where
  "commit_fails_world =
     sample_world\<lparr>w_fault := (\<lambda>n. if n = 2 then Some (DatabaseError ''commit failed'') else None)\<rparr>"

definition lost_world :: world where
  "lost_world =
     sample_world\<lparr>w_fault := (\<lambda>n.
        if n = 1 then Some (DatabaseError ''server closed the connection unexpectedly'')
        else if n = 2 then Some (DatabaseError ''connection already closed'') else None)\<rparr>"

text \<open>Readers for stating what a run left behind.\<close>

definition column :: "string \<Rightarrow> row list \<Rightarrow> pyval option list" where
  "column c rows = map (\<lambda>r. r c) rows"

definition table_rows :: "string \<Rightarrow> database \<Rightarrow> row list" where
  "table_rows name d = (case d name of None \<Rightarrow> [] | Some t \<Rightarrow> t_rows t)"

definition returned :: "scan_outcome \<Rightarrow> full_results option" where
  "returned out = (case out of Returned fr \<Rightarrow> Some fr | _ \<Rightarrow> None)"

definition returned_errors :: "scan_outcome \<Rightarrow> string list option" where
  "returned_errors out = map_option fr_errors (returned out)"

definition file_error_counts :: "scan_outcome \<Rightarrow> nat list" where
  "file_error_counts out =
     (case returned out of None \<Rightarrow> [] | Some fr \<Rightarrow> map md_errors (fr_module_details fr))"

text \<open>The body of a unit that inserts a sync log and reads the id that comes back.\<close>

definition sample_body :: "world \<Rightarrow> (exn + pyval option) \<times> world" where
  "sample_body =
     bind (execute (Insert \<lparr>q_table = ''sync_logs'', q_columns = [''sync_type'', ''status''],
                            q_placeholders = [''%s'', ''%s''], q_closing = Returning_id\<rparr>
                           [VStr ''manual'', VStr ''running'']))
          (\<lambda>rows. lift (item (fetchone rows) ''id''))"

section \<open>Properties of the insert builder\<close>

lemma insert_loop_surviving:
  "insert_loop cols data (cs, vs, ps) =
     (cs @ map fst (surviving cols data),
      vs @ map snd (surviving cols data),
      ps @ replicate (length (surviving cols data)) ''%s'')"
proof (induction data arbitrary: cs vs ps)
  case Nil
  show ?case by (simp add: surviving_def)
next
  case (Cons item data)
  obtain k vo where item: "item = (k, vo)" by (cases item)
  show ?case
  proof (cases vo)
    case None
    with item Cons show ?thesis by (simp add: surviving_def)
  next
    case (Some v)
    with item Cons show ?thesis
      by (simp add: surviving_def replicate_append_same)
  qed
qed

text \<open>
  Claim C1. The insert builder fails exactly when the table is not in the discovered
  schema or no field survives; otherwise the statement names the target table, its column
  list is the keys of the mapping that are discovered columns and carry a value other
  than None, in mapping order, there is one placeholder per column, and the returned
  values are those of the surviving fields, position by position.
\<close>

theorem build_insert_query_columns:
  "(isl (build_insert_query schemas t data) \<longleftrightarrow>
      (case schemas t of None \<Rightarrow> True | Some cols \<Rightarrow> surviving cols data = []))
   \<and> (\<forall>q vals cols. build_insert_query schemas t data = Inr (q, vals) \<and> schemas t = Some cols \<longrightarrow>
          q_table q = t \<and> q_closing q = Returning_id
        \<and> q_columns q = map fst (surviving cols data)
        \<and> vals = map snd (surviving cols data)
        \<and> q_placeholders q = replicate (length (q_columns q)) ''%s''
        \<and> set (q_columns q) \<subseteq> set cols
        \<and> (\<forall>i < length vals. (q_columns q ! i, Some (vals ! i)) \<in> set data))"
proof -
  have sub: "fst ` set (surviving cols data) \<subseteq> set cols" for cols
    by (auto simp: surviving_def split: option.splits)
  have mem: "set (surviving cols data) \<subseteq> {(k, v). (k, Some v) \<in> set data}" for cols
    by (auto simp: surviving_def split: option.splits)
  have nth: "\<forall>i < length (surviving cols data).
               (map fst (surviving cols data) ! i, Some (map snd (surviving cols data) ! i)) \<in> set data"
    for cols
  proof (intro allI impI)
    fix i assume i: "i < length (surviving cols data)"
    obtain k v where kv: "surviving cols data ! i = (k, v)"
      by (cases "surviving cols data ! i")
    from i have "surviving cols data ! i \<in> set (surviving cols data)" by simp
    with kv mem[of cols] have "(k, Some v) \<in> set data" by auto
    with kv have "(fst (surviving cols data ! i), Some (snd (surviving cols data ! i))) \<in> set data"
      by simp
    with i show "(map fst (surviving cols data) ! i, Some (map snd (surviving cols data) ! i)) \<in> set data"
      by simp
  qed
  show ?thesis
  proof (cases "schemas t")
    case None
    then show ?thesis by (simp add: build_insert_query_def)
  next
    case (Some cols)
    show ?thesis
    proof (cases "surviving cols data = []")
      case True
      with Some show ?thesis
        by (simp add: build_insert_query_def insert_loop_surviving)
    next
      case False
      with Some sub[of cols] nth[of cols] show ?thesis
        by (simp add: build_insert_query_def insert_loop_surviving)
    qed
  qed
qed

theorem build_insert_query_columns_witness:
  "build_insert_query [''students'' \<mapsto> [''id'', ''full_name'', ''email'']] ''students''
      [(''full_name'', Some (VStr ''Ana'')), (''nickname'', Some (VStr ''a'')), (''email'', None)]
    = Inr (\<lparr>q_table = ''students'', q_columns = [''full_name''], q_placeholders = [''%s''],
            q_closing = Returning_id\<rparr>, [VStr ''Ana''])
   \<and> surviving [''id'', ''full_name'', ''email'']
        [(''full_name'', Some (VStr ''Ana'')), (''nickname'', Some (VStr ''a'')), (''email'', None)]
      = [(''full_name'', VStr ''Ana'')]
   \<and> isl (build_insert_query [''students'' \<mapsto> [''id'', ''full_name'', ''email'']] ''modules''
      [(''full_name'', Some (VStr ''Ana''))])"
  using build_insert_query_columns [of "[''students'' \<mapsto> [''id'', ''full_name'', ''email'']]" "''students''"
      "[(''full_name'', Some (VStr ''Ana'')), (''nickname'', Some (VStr ''a'')), (''email'', None)]"]
   build_insert_query_columns [of "[''students'' \<mapsto> [''id'', ''full_name'', ''email'']]" "''modules''"
      "[(''full_name'', Some (VStr ''Ana''))]"]
  by (simp add: build_insert_query_def surviving_def)

section \<open>Properties of identity resolution\<close>

lemma from_user_valid:
  "u_emailAddress u = Some e \<Longrightarrow> CHR ''@'' \<in> set e \<Longrightarrow>
   from_user u fn = Some (preferred_name (get_or (u_displayName u) []) e fn, e)"
  by (auto simp: from_user_def get_or_def Let_def)

lemma from_user_invalid:
  "CHR ''@'' \<notin> set (get_or (u_emailAddress u) []) \<Longrightarrow> from_user u fn = None"
  by (simp add: from_user_def Let_def)

text \<open>
  Claim C2. When the metadata carries a lastModifyingUser whose address contains an
  at-sign, resolution returns that address, with the name chosen by step 1, also when
  the pattern of step 3 finds an address in the filename.
\<close>

theorem metadata_email_outranks_filename:
  assumes "f_lastModifyingUser fd = Some u"
    and "u_emailAddress u = Some e"
    and "CHR ''@'' \<in> set e"
    and "f_name fd = Some fn"
    and "re_search email_pattern False fn = Some m"
  shows "identify_student_from_file fd = Some (preferred_name (get_or (u_displayName u) []) e fn, e)"
proof -
  from assms(2,3) have "from_user u fn = Some (preferred_name (get_or (u_displayName u) []) e fn, e)"
    by (rule from_user_valid)
  with assms(1,4) show ?thesis
    by (simp add: identify_student_from_file_def get_or_def Let_def)
qed

lemma two_emails_search:
  "re_search email_pattern False ''ana@mail.com 2.pdf''
     = Some \<lparr>m_start = 0, m_text = ''ana@mail.com'', m_groups = []\<rparr>"
  by code_simp

lemma two_emails_name: "preferred_name ''Luz'' ''luz@uni.edu'' ''ana@mail.com 2.pdf'' = ''Luz''"
  by code_simp

theorem metadata_email_outranks_filename_witness:
  "f_lastModifyingUser two_emails_file
     = Some \<lparr>u_emailAddress = Some ''luz@uni.edu'', u_displayName = Some ''Luz''\<rparr>
   \<and> CHR ''@'' \<in> set ''luz@uni.edu''
   \<and> f_name two_emails_file = Some ''ana@mail.com 2.pdf''
   \<and> re_search email_pattern False ''ana@mail.com 2.pdf''
       = Some \<lparr>m_start = 0, m_text = ''ana@mail.com'', m_groups = []\<rparr>
   \<and> identify_student_from_file two_emails_file = Some (''Luz'', ''luz@uni.edu'')"
  using metadata_email_outranks_filename [of two_emails_file
      "\<lparr>u_emailAddress = Some ''luz@uni.edu'', u_displayName = Some ''Luz''\<rparr>"
      "''luz@uni.edu''" "''ana@mail.com 2.pdf''"
      "\<lparr>m_start = 0, m_text = ''ana@mail.com'', m_groups = []\<rparr>"]
    two_emails_search two_emails_name
  by (simp add: two_emails_file_def get_or_def)

subsection \<open>The stoplist\<close>

lemma modulo7_no_email: "re_search email_pattern False ''Modulo7_01.jpg'' = None"
  by code_simp

lemma modulo7_candidates: "candidates name_patterns ''Modulo7_01.jpg'' = [''Modulo'']"
  by code_simp

lemma name_is_valid_iff: "name_is_valid name \<longleftrightarrow> passes_stoplist name"
  by (auto simp: name_is_valid_def passes_stoplist_def palabras_invalidas_def list_ex_iff)

lemma try_name_patterns_candidates:
  "try_name_patterns ps fn =
     (case filter name_is_valid (candidates ps fn) of
        [] \<Rightarrow> None
      | c # cs \<Rightarrow> Some (join '' '' (split c), temp_email (join '' '' (split c))))"
proof (induction ps)
  case Nil
  show ?case by (simp add: candidates_def)
next
  case (Cons p ps)
  have tail: "candidates (p # ps) fn =
      (case re_search p True fn of None \<Rightarrow> [] | Some m \<Rightarrow> [clean_candidate (group m 1)])
      @ candidates ps fn"
    by (simp add: candidates_def)
  show ?case
  proof (cases "re_search p True fn")
    case None
    with Cons tail show ?thesis by simp
  next
    case (Some m)
    show ?thesis
    proof (cases "name_is_valid (clean_candidate (group m 1))")
      case True
      with Some tail show ?thesis by (simp add: Let_def)
    next
      case False
      with Some tail Cons show ?thesis by (simp add: Let_def)
    qed
  qed
qed

lemma identify_without_address:
  assumes "no_metadata_address fd"
  shows "identify_student_from_file fd =
     (case re_search email_pattern False (get_or (f_name fd) []) of
        Some m \<Rightarrow> Some (before_char CHR ''@'' (m_text m), m_text m)
      | None \<Rightarrow> try_name_patterns name_patterns (get_or (f_name fd) []))"
proof -
  have step1: "(case f_lastModifyingUser fd of None \<Rightarrow> None
                | Some user \<Rightarrow> from_user user (get_or (f_name fd) [])) = None"
    using assms by (auto simp: no_metadata_address_def from_user_invalid split: option.splits)
  have step2: "(case f_owners fd of None \<Rightarrow> None | Some [] \<Rightarrow> None
                | Some (owner # _) \<Rightarrow> from_user owner (get_or (f_name fd) [])) = None"
    using assms
    by (auto simp: no_metadata_address_def from_user_invalid split: option.splits list.splits)
  show ?thesis
    by (simp only: identify_student_from_file_def Let_def step1 step2 option.case)
qed

lemma identify_with_address:
  assumes "f_lastModifyingUser fd = Some u" and "u_emailAddress u = Some e" and "CHR ''@'' \<in> set e"
  shows "identify_student_from_file fd
           = Some (preferred_name (get_or (u_displayName u) []) e (get_or (f_name fd) []), e)"
proof -
  from assms(2,3)
  have "from_user u (get_or (f_name fd) [])
          = Some (preferred_name (get_or (u_displayName u) []) e (get_or (f_name fd) []), e)"
    by (rule from_user_valid)
  with assms(1) show ?thesis by (simp add: identify_student_from_file_def Let_def)
qed

lemma identify_with_owner:
  assumes "case f_lastModifyingUser fd of
             None \<Rightarrow> True
           | Some user \<Rightarrow> CHR ''@'' \<notin> set (get_or (u_emailAddress user) [])"
    and "f_owners fd = Some (owner # rest)" and "u_emailAddress owner = Some e"
    and "CHR ''@'' \<in> set e"
  shows "identify_student_from_file fd
           = Some (preferred_name (get_or (u_displayName owner) []) e (get_or (f_name fd) []), e)"
proof -
  have step1: "(case f_lastModifyingUser fd of None \<Rightarrow> None
                | Some user \<Rightarrow> from_user user (get_or (f_name fd) [])) = None"
    using assms(1) by (auto simp: from_user_invalid split: option.splits)
  from assms(3,4)
  have "from_user owner (get_or (f_name fd) [])
          = Some (preferred_name (get_or (u_displayName owner) []) e (get_or (f_name fd) []), e)"
    by (rule from_user_valid)
  with assms(2) have step2: "(case f_owners fd of None \<Rightarrow> None | Some [] \<Rightarrow> None
                | Some (owner # _) \<Rightarrow> from_user owner (get_or (f_name fd) []))
          = Some (preferred_name (get_or (u_displayName owner) []) e (get_or (f_name fd) []), e)"
    by simp
  show ?thesis
    by (simp only: identify_student_from_file_def Let_def step1 step2 option.case)
qed

text \<open>
  Claim C8, as the code has it. A file named Modulo7_01.jpg whose metadata gives no
  address is not identified: its only candidate is Modulo, which does not pass the
  stoplist. In general, when neither the metadata nor the filename gives an address,
  the file is identified by the first candidate that passes the stoplist, and not at
  all when none passes; the test of the source is the one written out in
  \<open>passes_stoplist\<close>, which looks for ejercicio, tarea and test as whole names only.
  When the last modifying user, or else the first owner, has an address with an
  at-sign the file is always identified, and by the name extracted from the filename
  whenever that has more than three characters: this name is not held against the
  stoplist, and neither is the local part of an address found in the filename.
\<close>

theorem stoplist_rejection:
  "(no_metadata_address fd \<and> f_name fd = Some ''Modulo7_01.jpg'' \<longrightarrow>
       candidates name_patterns ''Modulo7_01.jpg'' = [''Modulo'']
     \<and> \<not> passes_stoplist ''Modulo''
     \<and> identify_student_from_file fd = None)
   \<and> (no_metadata_address fd \<and> re_search email_pattern False (get_or (f_name fd) []) = None \<longrightarrow>
       identify_student_from_file fd =
         (case filter passes_stoplist (candidates name_patterns (get_or (f_name fd) [])) of
            [] \<Rightarrow> None
          | c # cs \<Rightarrow> Some (join '' '' (split c), temp_email (join '' '' (split c)))))
   \<and> (\<forall>name. name_is_valid name \<longleftrightarrow> passes_stoplist name)
   \<and> (\<forall>u e. f_lastModifyingUser fd = Some u \<and> u_emailAddress u = Some e \<and> CHR ''@'' \<in> set e \<longrightarrow>
         (\<exists>name. identify_student_from_file fd = Some (name, e))
       \<and> (\<forall>b. extract_name_from_filename (get_or (f_name fd) []) = Some b \<and> 3 < length b \<longrightarrow>
              identify_student_from_file fd = Some (b, e)))
   \<and> (\<forall>owner rest e.
         (case f_lastModifyingUser fd of
            None \<Rightarrow> True
          | Some user \<Rightarrow> CHR ''@'' \<notin> set (get_or (u_emailAddress user) []))
         \<and> f_owners fd = Some (owner # rest) \<and> u_emailAddress owner = Some e \<and> CHR ''@'' \<in> set e \<longrightarrow>
         (\<exists>name. identify_student_from_file fd = Some (name, e))
       \<and> (\<forall>b. extract_name_from_filename (get_or (f_name fd) []) = Some b \<and> 3 < length b \<longrightarrow>
              identify_student_from_file fd = Some (b, e)))
   \<and> (\<forall>m. no_metadata_address fd \<and> re_search email_pattern False (get_or (f_name fd) []) = Some m \<longrightarrow>
         identify_student_from_file fd = Some (before_char CHR ''@'' (m_text m), m_text m))"
proof (intro conjI impI allI)
  have valid_eq: "name_is_valid = passes_stoplist"
    by (rule ext) (rule name_is_valid_iff)
  have general: "identify_student_from_file fd =
         (case filter passes_stoplist (candidates name_patterns (get_or (f_name fd) [])) of
            [] \<Rightarrow> None
          | c # cs \<Rightarrow> Some (join '' '' (split c), temp_email (join '' '' (split c))))"
    if "no_metadata_address fd \<and> re_search email_pattern False (get_or (f_name fd) []) = None"
    using that
    by (simp add: identify_without_address try_name_patterns_candidates valid_eq)
  have low: "lower ''Modulo'' = ''modulo''" by code_simp
  have rejected: "\<not> passes_stoplist ''Modulo''"
    unfolding passes_stoplist_def low by simp
  show "candidates name_patterns ''Modulo7_01.jpg'' = [''Modulo'']"
    by (rule modulo7_candidates)
  show "\<not> passes_stoplist ''Modulo''" by (rule rejected)
  show "identify_student_from_file fd = None"
    if "no_metadata_address fd \<and> f_name fd = Some ''Modulo7_01.jpg''"
  proof -
    from that have fn: "get_or (f_name fd) [] = ''Modulo7_01.jpg''" by (simp add: get_or_def)
    from that fn have "identify_student_from_file fd =
         (case filter passes_stoplist (candidates name_patterns ''Modulo7_01.jpg'') of
            [] \<Rightarrow> None
          | c # cs \<Rightarrow> Some (join '' '' (split c), temp_email (join '' '' (split c))))"
      using general modulo7_no_email by simp
    then show ?thesis by (simp add: modulo7_candidates rejected)
  qed
  show "identify_student_from_file fd =
         (case filter passes_stoplist (candidates name_patterns (get_or (f_name fd) [])) of
            [] \<Rightarrow> None
          | c # cs \<Rightarrow> Some (join '' '' (split c), temp_email (join '' '' (split c))))"
    if "no_metadata_address fd \<and> re_search email_pattern False (get_or (f_name fd) []) = None"
    using that by (rule general)
  show "name_is_valid name \<longleftrightarrow> passes_stoplist name" for name
    by (rule name_is_valid_iff)
next
  fix u e
  assume a: "f_lastModifyingUser fd = Some u \<and> u_emailAddress u = Some e \<and> CHR ''@'' \<in> set e"
  then have id: "identify_student_from_file fd
           = Some (preferred_name (get_or (u_displayName u) []) e (get_or (f_name fd) []), e)"
    by (intro identify_with_address) simp_all
  then show "\<exists>name. identify_student_from_file fd = Some (name, e)" by blast
  fix b
  assume "extract_name_from_filename (get_or (f_name fd) []) = Some b \<and> 3 < length b"
  then have "preferred_name (get_or (u_displayName u) []) e (get_or (f_name fd) []) = b"
    by (auto simp: preferred_name_def)
  with id show "identify_student_from_file fd = Some (b, e)" by simp
next
  fix owner rest e
  assume a: "(case f_lastModifyingUser fd of
            None \<Rightarrow> True
          | Some user \<Rightarrow> CHR ''@'' \<notin> set (get_or (u_emailAddress user) []))
         \<and> f_owners fd = Some (owner # rest) \<and> u_emailAddress owner = Some e \<and> CHR ''@'' \<in> set e"
  then have id: "identify_student_from_file fd
           = Some (preferred_name (get_or (u_displayName owner) []) e (get_or (f_name fd) []), e)"
    by (intro identify_with_owner) simp_all
  then show "\<exists>name. identify_student_from_file fd = Some (name, e)" by blast
  fix b
  assume "extract_name_from_filename (get_or (f_name fd) []) = Some b \<and> 3 < length b"
  then have "preferred_name (get_or (u_displayName owner) []) e (get_or (f_name fd) []) = b"
    by (auto simp: preferred_name_def)
  with id show "identify_student_from_file fd = Some (b, e)" by simp
next
  fix m
  assume "no_metadata_address fd \<and> re_search email_pattern False (get_or (f_name fd) []) = Some m"
  then show "identify_student_from_file fd = Some (before_char CHR ''@'' (m_text m), m_text m)"
    by (simp add: identify_without_address)
qed

lemma juan_candidates:
  "(re_search email_pattern False ''Juan Perez.png'',
    filter passes_stoplist (candidates name_patterns ''Juan Perez.png''))
     = (None, [''Juan Perez'', ''Juan Perez''])"
  by code_simp

lemma juan_result:
  "join '' '' (split ''Juan Perez'') = ''Juan Perez''"
  "temp_email ''Juan Perez'' = ''juan.perez@extracted.temp''"
  by code_simp+

lemma module_named_extract:
  "(extract_name_from_filename ''Modulo7_Modulo_01.jpg'', lower ''Modulo'')
     = (Some ''Modulo'', ''modulo'')"
  by code_simp

theorem stoplist_rejection_witness:
  "no_metadata_address (unattributed_file ''Modulo7_01.jpg'')
   \<and> identify_student_from_file (unattributed_file ''Modulo7_01.jpg'') = None
   \<and> no_metadata_address (unattributed_file ''Juan Perez.png'')
   \<and> identify_student_from_file (unattributed_file ''Juan Perez.png'')
       = Some (''Juan Perez'', ''juan.perez@extracted.temp'')
   \<and> extract_name_from_filename ''Modulo7_Modulo_01.jpg'' = Some ''Modulo''
   \<and> \<not> name_is_valid ''Modulo''
   \<and> identify_student_from_file module_named_file = Some (''Modulo'', ''x@y.z'')"
proof -
  have none: "no_metadata_address (unattributed_file n)" for n
    by (simp add: no_metadata_address_def unattributed_file_def)
  have name: "f_name (unattributed_file n) = Some n" for n
    by (simp add: unattributed_file_def)
  from stoplist_rejection[of "unattributed_file ''Modulo7_01.jpg''"] none name
  have 1: "identify_student_from_file (unattributed_file ''Modulo7_01.jpg'') = None"
    and 2: "\<not> passes_stoplist ''Modulo''" by blast+
  from juan_candidates
  have j: "re_search email_pattern False ''Juan Perez.png'' = None"
    "filter passes_stoplist (candidates name_patterns ''Juan Perez.png'')
       = [''Juan Perez'', ''Juan Perez'']"
    by simp_all
  from stoplist_rejection[of "unattributed_file ''Juan Perez.png''"] none j(1)
  have "identify_student_from_file (unattributed_file ''Juan Perez.png'') =
         (case filter passes_stoplist (candidates name_patterns ''Juan Perez.png'') of
            [] \<Rightarrow> None
          | c # cs \<Rightarrow> Some (join '' '' (split c), temp_email (join '' '' (split c))))"
    by (simp add: name get_or_def)
  with j(2) juan_result
  have 3: "identify_student_from_file (unattributed_file ''Juan Perez.png'')
       = Some (''Juan Perez'', ''juan.perez@extracted.temp'')" by simp
  from module_named_extract
  have x: "extract_name_from_filename ''Modulo7_Modulo_01.jpg'' = Some ''Modulo''" by simp
  from stoplist_rejection[of module_named_file] 2
  have 4: "\<not> name_is_valid ''Modulo''" by blast
  have "f_lastModifyingUser module_named_file
          = Some \<lparr>u_emailAddress = Some ''x@y.z'', u_displayName = Some ''X''\<rparr>
        \<and> u_emailAddress \<lparr>u_emailAddress = Some ''x@y.z'', u_displayName = Some ''X''\<rparr> = Some ''x@y.z''
        \<and> CHR ''@'' \<in> set ''x@y.z''"
    by (simp add: module_named_file_def)
  moreover have "extract_name_from_filename (get_or (f_name module_named_file) []) = Some ''Modulo''
        \<and> 3 < length ''Modulo''"
    using x by (simp add: module_named_file_def get_or_def)
  ultimately have 5: "identify_student_from_file module_named_file = Some (''Modulo'', ''x@y.z'')"
    using stoplist_rejection[of module_named_file] by blast
  from none 1 3 x 4 5 show ?thesis by simp
qed

text \<open>
  The claim as written also rejects a candidate that contains ejercicio, tarea or test.
  The code tests containment for the three module words only: a file named
  \<open>mi tarea 3.png\<close> is attributed to the name \<open>mi tarea\<close>.
\<close>

theorem stoplist_contains_counterexample:
  "identify_student_from_file (unattributed_file ''mi tarea 3.png'')
     = Some (''mi tarea'', ''mi.tarea@extracted.temp'')
   \<and> ''tarea'' \<in> set palabras_invalidas
   \<and> contains ''tarea'' (lower ''mi tarea'')"
proof -
  have "identify_student_from_file (unattributed_file ''mi tarea 3.png'')
     = Some (''mi tarea'', ''mi.tarea@extracted.temp'')"
    by code_simp
  moreover have "''tarea'' \<in> set palabras_invalidas"
    by (simp add: palabras_invalidas_def)
  moreover have "contains ''tarea'' (lower ''mi tarea'')"
    by code_simp
  ultimately show ?thesis by blast
qed

section \<open>Properties of module codes\<close>

text \<open>
  Claim C3. The code of \<open>Modulo 7\<close> is \<open>MOD07\<close>, that of \<open>Correcciones Finales\<close> is
  \<open>CORR\<close> and that of \<open>xyz123\<close> is \<open>XYZ\<close>. The accented spelling of the claim, M, o
  with acute accent (U+00F3), dulo 7, is not matched by the pattern of the first rule,
  which wants a plain o, and no keyword applies, so the third rule answers \<open>MDUL\<close>.
\<close>

theorem generate_module_code_samples:
  "generate_module_code (''M'' @ [CHR 0xF3] @ ''dulo 7'') = ''MDUL''
   \<and> generate_module_code ''Modulo 7'' = ''MOD07''
   \<and> generate_module_code ''Correcciones Finales'' = ''CORR''
   \<and> generate_module_code ''xyz123'' = ''XYZ''"
proof -
  have "generate_module_code (''M'' @ [CHR 0xF3] @ ''dulo 7'') = ''MDUL''" by code_simp
  moreover have "generate_module_code ''Modulo 7'' = ''MOD07''" by code_simp
  moreover have "generate_module_code ''Correcciones Finales'' = ''CORR''" by code_simp
  moreover have "generate_module_code ''xyz123'' = ''XYZ''" by code_simp
  ultimately show ?thesis by blast
qed

section \<open>Properties of the transactional unit\<close>

lemma attempt_fields [simp]:
  "w_db (snd (attempt w)) = w_db w"
  "w_tx (snd (attempt w)) = w_tx w"
  "w_open (snd (attempt w)) = w_open w"
  "w_next_id (snd (attempt w)) = w_next_id w"
  "w_clock (snd (attempt w)) = w_clock w"
  by (simp_all add: attempt_def)

lemma connect_cases:
  "(\<exists>e w1. connect w = (Inl e, w1) \<and> w_db w1 = w_db w \<and> w_open w1 = w_open w \<and> w_tx w1 = w_tx w)
   \<or> (\<exists>w1. connect w = (Inr (), w1) \<and> w_db w1 = w_db w \<and> w_open w1 = Suc (w_open w)
          \<and> w_tx w1 = Some (w_db w) \<and> w_next_id w1 = w_next_id w \<and> w_clock w1 = w_clock w)"
  by (auto simp: connect_def attempt_def split: option.splits)

lemma commit_cases:
  "(\<exists>e w1. commit w = (Inl e, w1) \<and> w_db w1 = w_db w \<and> w_open w1 = w_open w)
   \<or> (\<exists>w1 d. commit w = (Inr (), w1) \<and> w_tx w = Some d \<and> w_db w1 = d \<and> w_open w1 = w_open w)"
  by (auto simp: commit_def attempt_def split: option.splits)

lemma close_fields [simp]:
  "w_db (close w) = w_db w" "w_open (close w) = w_open w - 1" "w_tx (close w) = None"
  by (simp_all add: close_def)

lemma on_exception_cases:
  assumes "on_exception e w = (e', w1)"
  shows "w_db w1 = w_db w" and "w_open w1 = w_open w"
    and "\<exists>rb. rollback w = (rb, w1) \<and> e' = (case rb of Inl e2 \<Rightarrow> e2 | Inr u \<Rightarrow> e)"
  using assms
  by (auto simp: on_exception_def rollback_def attempt_def split: option.splits)

lemma execute_fields:
  "w_db (snd (execute stmt w)) = w_db w" "w_open (snd (execute stmt w)) = w_open w"
  by (auto simp: execute_def attempt_def split: option.splits sum.splits prod.splits)

lemma in_transaction_execute:
  "in_transaction (bind (execute stmt) (\<lambda>rows. lift (f rows)))"
  unfolding in_transaction_def bind_def lift_def
proof (intro allI)
  fix w
  obtain r w1 where ex: "execute stmt w = (r, w1)" by (cases "execute stmt w")
  from execute_fields[of stmt w] ex have "w_db w1 = w_db w" "w_open w1 = w_open w" by simp_all
  with ex show "w_db (snd (case execute stmt w of (Inl e, w1) \<Rightarrow> (Inl e, w1) | (Inr a, x) \<Rightarrow> (f a, x))) = w_db w
     \<and> w_open (snd (case execute stmt w of (Inl e, w1) \<Rightarrow> (Inl e, w1) | (Inr a, x) \<Rightarrow> (f a, x))) = w_open w"
    by (cases r) simp_all
qed

lemma get_connection_unit:
  assumes body: "in_transaction body"
    and run: "get_connection body w = (r, w')"
  shows "w_open w' = w_open w"
    and "\<And>e. r = Inl e \<Longrightarrow> w_db w' = w_db w"
    and "\<And>a. r = Inr a \<Longrightarrow>
           \<exists>w1 w2. connect w = (Inr (), w1) \<and> body w1 = (Inr a, w2) \<and> w_tx w2 = Some (w_db w')"
    and "\<And>e. r = Inl e \<Longrightarrow>
           (\<exists>w1. connect w = (Inl e, w1))
           \<or> (\<exists>w1 e0 w2 rb w3. connect w = (Inr (), w1)
                 \<and> (body w1 = (Inl e0, w2)
                    \<or> (\<exists>a wb. body w1 = (Inr a, wb) \<and> commit wb = (Inl e0, w2)))
                 \<and> rollback w2 = (rb, w3)
                 \<and> e = (case rb of Inl e2 \<Rightarrow> e2 | Inr u \<Rightarrow> e0))"
proof -
  let ?source = "\<lambda>e. (\<exists>w1. connect w = (Inl e, w1))
           \<or> (\<exists>w1 e0 w2 rb w3. connect w = (Inr (), w1)
                 \<and> (body w1 = (Inl e0, w2)
                    \<or> (\<exists>a wb. body w1 = (Inr a, wb) \<and> commit wb = (Inl e0, w2)))
                 \<and> rollback w2 = (rb, w3)
                 \<and> e = (case rb of Inl e2 \<Rightarrow> e2 | Inr u \<Rightarrow> e0))"
  consider (refused) e w1 where "connect w = (Inl e, w1)" "w_db w1 = w_db w" "w_open w1 = w_open w"
    | (connected) w1 where "connect w = (Inr (), w1)" "w_db w1 = w_db w" "w_open w1 = Suc (w_open w)"
    using connect_cases[of w] by blast
  then have "w_open w' = w_open w
     \<and> (\<forall>e. r = Inl e \<longrightarrow> w_db w' = w_db w)
     \<and> (\<forall>a. r = Inr a \<longrightarrow>
           (\<exists>w1 w2. connect w = (Inr (), w1) \<and> body w1 = (Inr a, w2) \<and> w_tx w2 = Some (w_db w')))
     \<and> (\<forall>e. r = Inl e \<longrightarrow> ?source e)"
  proof cases
    case refused
    with run show ?thesis by (auto simp: get_connection_def)
  next
    case connected
    obtain rb w2 where b: "body w1 = (rb, w2)" by (cases "body w1")
    from body b have w2: "w_db w2 = w_db w1" "w_open w2 = w_open w1"
      unfolding in_transaction_def by (metis snd_conv)+
    show ?thesis
    proof (cases rb)
      case (Inl e0)
      obtain e' w3 where h: "on_exception e0 w2 = (e', w3)" by (cases "on_exception e0 w2")
      note hc = on_exception_cases[OF h]
      from run connected b Inl h have r: "r = Inl e'" and w': "w' = close w3"
        by (simp_all add: get_connection_def)
      from hc(3) obtain rr where rr: "rollback w2 = (rr, w3)"
        "e' = (case rr of Inl e2 \<Rightarrow> e2 | Inr u \<Rightarrow> e0)" by blast
      from connected(1) b Inl rr have "?source e'" by blast
      with r w' hc(1,2) w2 connected show ?thesis by simp
    next
      case (Inr a)
      consider (lost) e0 w3 where "commit w2 = (Inl e0, w3)" "w_db w3 = w_db w2" "w_open w3 = w_open w2"
        | (committed) w3 d where "commit w2 = (Inr (), w3)" "w_tx w2 = Some d" "w_db w3 = d" "w_open w3 = w_open w2"
        using commit_cases[of w2] by blast
      then show ?thesis
      proof cases
        case lost
        obtain e' w4 where h: "on_exception e0 w3 = (e', w4)" by (cases "on_exception e0 w3")
        note hc = on_exception_cases[OF h]
        from run connected b Inr lost h have r: "r = Inl e'" and w': "w' = close w4"
          by (simp_all add: get_connection_def)
        from hc(3) obtain rr where rr: "rollback w3 = (rr, w4)"
          "e' = (case rr of Inl e2 \<Rightarrow> e2 | Inr u \<Rightarrow> e0)" by blast
        from connected(1) b Inr lost(1) rr have "?source e'" by blast
        with r w' hc(1,2) lost w2 connected show ?thesis by simp
      next
        case committed
        with run connected b w2 Inr show ?thesis by (auto simp: get_connection_def)
      qed
    qed
  qed
  then show "w_open w' = w_open w"
    and "\<And>e. r = Inl e \<Longrightarrow> w_db w' = w_db w"
    and "\<And>a. r = Inr a \<Longrightarrow>
           \<exists>w1 w2. connect w = (Inr (), w1) \<and> body w1 = (Inr a, w2) \<and> w_tx w2 = Some (w_db w')"
    and "\<And>e. r = Inl e \<Longrightarrow> ?source e"
    by blast+
qed

text \<open>
  What one statement in its own unit does to the committed database: nothing when the
  unit raises, and what the statement does to the database it started from otherwise.
\<close>

lemma statement_unit:
  assumes "get_cursor (bind (execute stmt) (\<lambda>rows. lift (f rows))) w = (r, w')"
  shows "\<And>e. r = Inl e \<Longrightarrow> w_db w' = w_db w"
    and "\<And>a. r = Inr a \<Longrightarrow>
           \<exists>rows. run_statement stmt (w_next_id w) (w_clock w) (w_db w) = Inr (w_db w', rows)
                  \<and> f rows = Inr a"
proof -
  note unit = get_connection_unit[OF in_transaction_execute, OF assms[unfolded get_cursor_def]]
  show "\<And>e. r = Inl e \<Longrightarrow> w_db w' = w_db w" by (rule unit(2))
  show "\<exists>rows. run_statement stmt (w_next_id w) (w_clock w) (w_db w) = Inr (w_db w', rows) \<and> f rows = Inr a"
    if "r = Inr a" for a
  proof -
    from unit(3)[OF that] obtain w1 w2 where
      c: "connect w = (Inr (), w1)" and
      b: "bind (execute stmt) (\<lambda>rows. lift (f rows)) w1 = (Inr a, w2)" and
      t: "w_tx w2 = Some (w_db w')" by blast
    from c connect_cases[of w] have w1: "w_tx w1 = Some (w_db w)" "w_next_id w1 = w_next_id w"
      "w_clock w1 = w_clock w" by auto
    from b w1 t show ?thesis
      by (auto simp: bind_def lift_def execute_def attempt_def
               split: prod.splits sum.splits option.splits)
  qed
qed

lemma get_connection_closed:
  assumes "connect w = (Inr (), w1)" and "get_connection body w = (r, w')"
  shows "w_tx w' = None"
  using assms by (auto simp: get_connection_def split: prod.splits sum.splits)

text \<open>
  Claim C7, as the code has it. A unit of work opened by \<open>get_connection\<close> leaves as
  many connections open as it found, on every path, and no transaction behind. When it
  returns a value, the body ran on a connection and the committed database is the one
  the body left in its transaction. When it raises, the committed database is the one
  it started from; the exception is the one of \<open>connect\<close>, or \<open>rollback\<close> was called
  after the body or \<open>commit\<close> raised and the exception is the triggering one when
  \<open>rollback\<close> returned and the one of \<open>rollback\<close> when that raised in its turn.
  Every body that executes a statement and reads its result, as the operations of the
  DAO do, runs inside the transaction.
\<close>

theorem transactional_unit:
  assumes "in_transaction body"
    and "get_connection body w = (r, w')"
  shows "w_open w' = w_open w
     \<and> (\<forall>w1. connect w = (Inr (), w1) \<longrightarrow> w_tx w' = None)
     \<and> (\<forall>a. r = Inr a \<longrightarrow>
           (\<exists>w1 w2. connect w = (Inr (), w1) \<and> body w1 = (Inr a, w2) \<and> w_tx w2 = Some (w_db w')))
     \<and> (\<forall>e. r = Inl e \<longrightarrow>
           w_db w' = w_db w
           \<and> ((\<exists>w1. connect w = (Inl e, w1))
              \<or> (\<exists>w1 e0 w2 rb w3. connect w = (Inr (), w1)
                    \<and> (body w1 = (Inl e0, w2)
                       \<or> (\<exists>a wb. body w1 = (Inr a, wb) \<and> commit wb = (Inl e0, w2)))
                    \<and> rollback w2 = (rb, w3)
                    \<and> e = (case rb of Inl e2 \<Rightarrow> e2 | Inr u \<Rightarrow> e0))))
     \<and> in_transaction (bind (execute stmt) (\<lambda>rows. lift (f rows)))"
proof -
  note unit = get_connection_unit[OF assms]
  have closed: "\<forall>w1. connect w = (Inr (), w1) \<longrightarrow> w_tx w' = None"
    using get_connection_closed assms(2) by blast
  have raised: "\<forall>e. r = Inl e \<longrightarrow>
           w_db w' = w_db w
           \<and> ((\<exists>w1. connect w = (Inl e, w1))
              \<or> (\<exists>w1 e0 w2 rb w3. connect w = (Inr (), w1)
                    \<and> (body w1 = (Inl e0, w2)
                       \<or> (\<exists>a wb. body w1 = (Inr a, wb) \<and> commit wb = (Inl e0, w2)))
                    \<and> rollback w2 = (rb, w3)
                    \<and> e = (case rb of Inl e2 \<Rightarrow> e2 | Inr u \<Rightarrow> e0)))"
    using unit(2) unit(4) by blast
  have returned: "\<forall>a. r = Inr a \<longrightarrow>
           (\<exists>w1 w2. connect w = (Inr (), w1) \<and> body w1 = (Inr a, w2) \<and> w_tx w2 = Some (w_db w'))"
    using unit(3) by blast
  from unit(1) closed returned raised in_transaction_execute show ?thesis by (intro conjI)
qed

section \<open>Properties of the sync log\<close>

lemma update_loop_surviving:
  "update_loop cols opts (fs, vs) =
     (fs @ map fst (surviving cols opts), vs @ map snd (surviving cols opts))"
proof (induction opts arbitrary: fs vs)
  case Nil
  show ?case by (simp add: surviving_def)
next
  case (Cons opt opts)
  obtain k vo where opt: "opt = (k, vo)" by (cases opt)
  show ?case
  proof (cases vo)
    case None
    with opt Cons show ?thesis by (simp add: surviving_def)
  next
    case (Some v)
    with opt Cons show ?thesis by (simp add: surviving_def)
  qed
qed

lemma sync_log_update_eq:
  "sync_log_update schemas status kwargs now =
     (''status'' # map fst (surviving (column_names schemas ''sync_logs'') (optional_fields status kwargs now)),
      VStr status # map snd (surviving (column_names schemas ''sync_logs'') (optional_fields status kwargs now)))"
  by (simp add: sync_log_update_def update_loop_surviving)

lemma surviving_keys:
  "k \<in> fst ` set (surviving cols opts) \<longleftrightarrow> k \<in> set cols \<and> (\<exists>v. (k, Some v) \<in> set opts)"
  by (force simp: surviving_def split: option.splits)

lemma map_of_surviving:
  assumes "distinct (map fst opts)"
  shows "map_of (surviving cols opts) k =
           (if k \<in> set cols then (case map_of opts k of Some (Some v) \<Rightarrow> Some v | _ \<Rightarrow> None) else None)"
  using assms
proof (induction opts)
  case Nil
  show ?case by (simp add: surviving_def)
next
  case (Cons opt opts)
  obtain k' vo where opt: "opt = (k', vo)" by (cases opt)
  from Cons.prems opt have notin: "k' \<notin> fst ` set opts" and d: "distinct (map fst opts)" by auto
  have tail: "surviving cols (opt # opts) =
      (case vo of Some v \<Rightarrow> if k' \<in> set cols then (k', v) # surviving cols opts else surviving cols opts
       | None \<Rightarrow> surviving cols opts)"
    using opt by (simp add: surviving_def split: option.splits)
  have none: "map_of opts k' = None" using notin by (simp add: map_of_eq_None_iff)
  have none': "map_of (surviving cols opts) k' = None"
    using notin surviving_keys[of k' cols opts] by (auto simp: map_of_eq_None_iff image_iff)
  show ?case
  proof (cases "k = k'")
    case True
    with tail opt none none' show ?thesis by (cases vo) auto
  next
    case False
    with tail opt Cons.IH[OF d] show ?thesis by (cases vo) auto
  qed
qed

lemma optional_fields_distinct: "distinct (map fst (optional_fields status kwargs now))"
  by (simp add: optional_fields_def)

lemma zip_fst_snd: "map_of (zip (map fst kvs) (map snd kvs)) = map_of kvs"
  by (simp add: zip_map_fst_snd)

text \<open>What the statement of \<open>update_sync_log\<close> assigns to a column.\<close>

lemma sync_log_assignment:
  "map_of (zip (fst (sync_log_update schemas status kwargs now))
               (snd (sync_log_update schemas status kwargs now))) c =
     (if c = ''status'' then Some (VStr status)
      else if c \<in> set (column_names schemas ''sync_logs'')
      then (case map_of (optional_fields status kwargs now) c of Some (Some v) \<Rightarrow> Some v | _ \<Rightarrow> None)
      else None)"
  by (simp add: sync_log_update_eq zip_fst_snd map_of_surviving[OF optional_fields_distinct])

lemma run_update_rows:
  assumes "run_update name cols vals idv d = Inr (d', rows)"
  shows "\<exists>t. d name = Some t
           \<and> d' = d(name \<mapsto> t\<lparr>t_rows := map (\<lambda>r. if idv \<noteq> None \<and> r ''id'' = idv
                                                   then r ++ map_of (zip cols vals) else r) (t_rows t)\<rparr>)"
  using assms by (auto simp: run_update_def split: option.splits if_splits)

lemma update_sync_log_effect:
  assumes "update_sync_log schemas sync_id status kwargs w = (r, w')"
  shows "r \<noteq> Inr () \<Longrightarrow> w_db w' = w_db w"
    and "r = Inr () \<Longrightarrow>
           sync_log_rows (w_db w') =
             map (\<lambda>row. if sync_id \<noteq> None \<and> row ''id'' = sync_id
                         then row ++ map_of (zip (fst (sync_log_update schemas status kwargs (w_clock w)))
                                                 (snd (sync_log_update schemas status kwargs (w_clock w))))
                         else row)
                 (sync_log_rows (w_db w))"
proof -
  obtain fs vs where upd: "sync_log_update schemas status kwargs (w_clock w) = (fs, vs)"
    by (cases "sync_log_update schemas status kwargs (w_clock w)")
  with assms have run: "get_cursor (bind (execute (Update ''sync_logs'' fs vs sync_id))
                           (\<lambda>rows. lift (Inr ()))) w = (r, w')"
    by (simp add: update_sync_log_def)
  show "w_db w' = w_db w" if "r \<noteq> Inr ()"
  proof (cases r)
    case (Inl e)
    then show ?thesis using statement_unit(1)[OF run] by simp
  next
    case (Inr u)
    with that show ?thesis by simp
  qed
  show "sync_log_rows (w_db w') =
             map (\<lambda>row. if sync_id \<noteq> None \<and> row ''id'' = sync_id
                         then row ++ map_of (zip (fst (sync_log_update schemas status kwargs (w_clock w)))
                                                 (snd (sync_log_update schemas status kwargs (w_clock w))))
                         else row)
                 (sync_log_rows (w_db w))" if "r = Inr ()"
  proof -
    from statement_unit(2)[OF run that] obtain rows where
      "run_update ''sync_logs'' fs vs sync_id (w_db w) = Inr (w_db w', rows)" by auto
    from run_update_rows[OF this] upd show ?thesis
      by (auto simp: sync_log_rows_def)
  qed
qed

text \<open>
  Claim C10. The statement of \<open>update_sync_log\<close> assigns \<open>completed_at\<close> exactly when
  the status is completed or failed (and the table has the column). A call with the
  status completed_with_errors leaves the \<open>completed_at\<close> of every row as it was, and
  when it succeeds the row of the run carries the new status and the counters that were
  passed, for the columns the schema has.
\<close>

theorem completed_at_only_when_finished:
  "(''completed_at'' \<in> set (fst (sync_log_update schemas status kwargs now)) \<longleftrightarrow>
      (status = ''completed'' \<or> status = ''failed'')
      \<and> ''completed_at'' \<in> set (column_names schemas ''sync_logs''))
   \<and> (update_sync_log schemas sync_id ''completed_with_errors'' kwargs w = (r, w') \<longrightarrow>
        map (\<lambda>row. row ''completed_at'') (sync_log_rows (w_db w'))
          = map (\<lambda>row. row ''completed_at'') (sync_log_rows (w_db w))
        \<and> (r = Inr () \<longrightarrow>
             (\<forall>row \<in> set (sync_log_rows (w_db w')). sync_id \<noteq> None \<and> row ''id'' = sync_id \<longrightarrow>
                row ''status'' = Some (VStr ''completed_with_errors'')
                \<and> (\<forall>v. kw_files_processed kwargs = Some v
                        \<and> ''files_processed'' \<in> set (column_names schemas ''sync_logs'')
                      \<longrightarrow> row ''files_processed'' = Some v)
                \<and> (\<forall>v. kw_errors kwargs = Some v
                        \<and> ''errors'' \<in> set (column_names schemas ''sync_logs'')
                      \<longrightarrow> row ''errors'' = Some v))))"
proof (intro conjI impI)
  have "''completed_at'' \<in> set (fst (sync_log_update schemas status kwargs now)) \<longleftrightarrow>
        ''completed_at'' \<in> fst ` set (surviving (column_names schemas ''sync_logs'')
                                          (optional_fields status kwargs now))"
    by (simp add: sync_log_update_eq)
  also have "\<dots> \<longleftrightarrow> (status = ''completed'' \<or> status = ''failed'')
      \<and> ''completed_at'' \<in> set (column_names schemas ''sync_logs'')"
    unfolding surviving_keys by (auto simp: optional_fields_def)
  finally show "''completed_at'' \<in> set (fst (sync_log_update schemas status kwargs now)) \<longleftrightarrow>
      (status = ''completed'' \<or> status = ''failed'')
      \<and> ''completed_at'' \<in> set (column_names schemas ''sync_logs'')" .
next
  assume run: "update_sync_log schemas sync_id ''completed_with_errors'' kwargs w = (r, w')"
  let ?m = "map_of (zip (fst (sync_log_update schemas ''completed_with_errors'' kwargs (w_clock w)))
                        (snd (sync_log_update schemas ''completed_with_errors'' kwargs (w_clock w))))"
  have no_stamp: "?m ''completed_at'' = None"
    by (simp add: sync_log_assignment optional_fields_def)
  have no_id: "?m ''id'' = None"
    by (simp add: sync_log_assignment optional_fields_def)
  show "map (\<lambda>row. row ''completed_at'') (sync_log_rows (w_db w'))
          = map (\<lambda>row. row ''completed_at'') (sync_log_rows (w_db w))"
  proof (cases "r = Inr ()")
    case True
    show ?thesis
      unfolding update_sync_log_effect(2)[OF run True]
      using no_stamp by (simp add: map_add_def)
  next
    case False
    then show ?thesis using update_sync_log_effect(1)[OF run] by simp
  qed
  show "\<forall>row \<in> set (sync_log_rows (w_db w')). sync_id \<noteq> None \<and> row ''id'' = sync_id \<longrightarrow>
                row ''status'' = Some (VStr ''completed_with_errors'')
                \<and> (\<forall>v. kw_files_processed kwargs = Some v
                        \<and> ''files_processed'' \<in> set (column_names schemas ''sync_logs'')
                      \<longrightarrow> row ''files_processed'' = Some v)
                \<and> (\<forall>v. kw_errors kwargs = Some v
                        \<and> ''errors'' \<in> set (column_names schemas ''sync_logs'')
                      \<longrightarrow> row ''errors'' = Some v)" if ok: "r = Inr ()"
  proof (intro ballI impI)
    fix row assume mem: "row \<in> set (sync_log_rows (w_db w'))"
      and idr: "sync_id \<noteq> None \<and> row ''id'' = sync_id"
    from mem obtain old where old: "old \<in> set (sync_log_rows (w_db w))"
      and row: "row = (if sync_id \<noteq> None \<and> old ''id'' = sync_id then old ++ ?m else old)"
      unfolding update_sync_log_effect(2)[OF run ok] by auto
    have "old ''id'' = sync_id"
    proof (rule ccontr)
      assume "old ''id'' \<noteq> sync_id"
      with row idr show False by simp
    qed
    with row idr have row': "row = old ++ ?m" by simp
    show "row ''status'' = Some (VStr ''completed_with_errors'')
                \<and> (\<forall>v. kw_files_processed kwargs = Some v
                        \<and> ''files_processed'' \<in> set (column_names schemas ''sync_logs'')
                      \<longrightarrow> row ''files_processed'' = Some v)
                \<and> (\<forall>v. kw_errors kwargs = Some v
                        \<and> ''errors'' \<in> set (column_names schemas ''sync_logs'')
                      \<longrightarrow> row ''errors'' = Some v)"
      unfolding row'
      by (auto simp: map_add_def sync_log_assignment optional_fields_def)
  qed
qed

section \<open>Properties of the upserts\<close>

lemma bind_lift:
  "bind (lift (Inl e)) f w = (Inl e, w)"
  "bind (lift (Inr x)) f w = f x w"
  by (simp_all add: bind_def lift_def)

lemma build_insert_query_Inr:
  assumes "build_insert_query schemas t data = Inr (q, vals)"
  shows "\<exists>cols. schemas t = Some cols
           \<and> q_table q = t \<and> q_closing q = Returning_id
           \<and> q_columns q = map fst (surviving cols data)
           \<and> vals = map snd (surviving cols data)"
  using assms
  by (auto simp: build_insert_query_def insert_loop_surviving split: option.splits if_splits)

lemma insert_unit:
  assumes "insert_returning_id q vals w = (r, w')"
  shows "\<And>e. r = Inl e \<Longrightarrow> w_db w' = w_db w"
    and "\<And>a. r = Inr a \<Longrightarrow>
           \<exists>rows. run_insert q vals (w_next_id w) (w_clock w) (w_db w) = Inr (w_db w', rows)"
proof -
  note unit = statement_unit[OF assms[unfolded insert_returning_id_def]]
  show "\<And>e. r = Inl e \<Longrightarrow> w_db w' = w_db w" by (rule unit(1))
  show "\<And>a. r = Inr a \<Longrightarrow>
           \<exists>rows. run_insert q vals (w_next_id w) (w_clock w) (w_db w) = Inr (w_db w', rows)"
    using unit(2) by fastforce
qed

lemma upsert_None: "upsert c f rs = None \<longleftrightarrow> (\<forall>r \<in> set rs. \<not> c r)"
  by (induction rs) (auto split: option.splits)

lemma upsert_Some:
  assumes "upsert c f rs = Some (rs', changed)"
  shows "\<exists>i < length rs. c (rs ! i) \<and> rs' = rs[i := f (rs ! i)] \<and> changed = f (rs ! i)"
  using assms
proof (induction rs arbitrary: rs')
  case Nil
  then show ?case by simp
next
  case (Cons r rs)
  show ?case
  proof (cases "c r")
    case True
    with Cons.prems have "rs' = f r # rs" "changed = f r" by auto
    with True show ?thesis by (intro exI[of _ 0]) simp
  next
    case False
    with Cons.prems obtain rs'' where u: "upsert c f rs = Some (rs'', changed)" and rs': "rs' = r # rs''"
      by (auto split: option.splits)
    from Cons.IH[OF u] obtain i where "i < length rs" "c (rs ! i)" "rs'' = rs[i := f (rs ! i)]"
      "changed = f (rs ! i)" by blast
    with rs' show ?thesis by (intro exI[of _ "Suc i"]) simp
  qed
qed

lemma foldl_assign_frame:
  "c \<notin> fst ` set sets \<Longrightarrow> foldl (assign proposed now) r sets c = r c"
proof (induction sets arbitrary: r)
  case Nil
  show ?case by simp
next
  case (Cons s sets)
  obtain c' rhs where s: "s = (c', rhs)" by (cases s)
  from Cons.prems s have ne: "c \<noteq> c'" and rest: "c \<notin> fst ` set sets" by auto
  from ne have "assign proposed now r s c = r c" using s by (cases rhs) auto
  with Cons.IH[OF rest, of "assign proposed now r s"] show ?case by simp
qed

text \<open>The two things an insert that succeeds can have done to its table.\<close>

lemma run_insert_Inr:
  assumes "run_insert q vals fresh now d = Inr (d', rows)"
  shows "\<exists>t. d (q_table q) = Some t \<and>
           ((d' = d(q_table q \<mapsto> t\<lparr>t_rows := t_rows t @ [proposed_row q vals fresh]\<rparr>)
             \<and> (q_closing q = Returning_id
                \<or> (\<exists>target sets. q_closing q = On_conflict target sets
                      \<and> (\<forall>r \<in> set (t_rows t). \<not> (proposed_row q vals fresh target \<noteq> None
                                                    \<and> r target = proposed_row q vals fresh target)))))
            \<or> (\<exists>target sets i. q_closing q = On_conflict target sets \<and> i < length (t_rows t)
                  \<and> proposed_row q vals fresh target \<noteq> None
                  \<and> (t_rows t ! i) target = proposed_row q vals fresh target
                  \<and> d' = d(q_table q \<mapsto> t\<lparr>t_rows := (t_rows t)
                            [i := foldl (assign (proposed_row q vals fresh) now) (t_rows t ! i) sets]\<rparr>)))"
proof -
  from assms obtain t where t: "d (q_table q) = Some t"
    by (auto simp: run_insert_def split: option.splits)
  show ?thesis
  proof (cases "q_closing q")
    case Returning_id
    with assms t show ?thesis
      by (auto simp: run_insert_def Let_def split: if_splits)
  next
    case (On_conflict target sets)
    let ?p = "proposed_row q vals fresh"
    let ?c = "\<lambda>r. ?p target \<noteq> None \<and> r target = ?p target"
    let ?f = "\<lambda>r. foldl (assign ?p now) r sets"
    show ?thesis
    proof (cases "upsert ?c ?f (t_rows t)")
      case None
      with assms t On_conflict have "d' = d(q_table q \<mapsto> t\<lparr>t_rows := t_rows t @ [?p]\<rparr>)"
        by (auto simp: run_insert_def Let_def split: if_splits)
      moreover from None have "\<forall>r \<in> set (t_rows t). \<not> ?c r" by (simp only: upsert_None)
      ultimately show ?thesis using t On_conflict by blast
    next
      case (Some res)
      obtain rs' changed where res: "res = (rs', changed)" by (cases res)
      from upsert_Some[OF Some[unfolded res]] obtain i where
        i: "i < length (t_rows t)" "?c (t_rows t ! i)" "rs' = (t_rows t)[i := ?f (t_rows t ! i)]" by blast
      from assms t On_conflict Some res have "d' = d(q_table q \<mapsto> t\<lparr>t_rows := rs'\<rparr>)"
        by (auto simp: run_insert_def Let_def split: if_splits)
      with i t On_conflict show ?thesis by blast
    qed
  qed
qed

subsection \<open>Submissions\<close>

lemma drive_mapping_distinct: "distinct (map fst (drive_mapping fd n parse_date now))"
  by (auto simp: drive_mapping_def split: option.splits list.splits)

lemma drive_mapping_keys:
  "''module_id'' \<notin> fst ` set (drive_mapping fd n parse_date now)"
  "''student_id'' \<notin> fst ` set (drive_mapping fd n parse_date now)"
  by (auto simp: drive_mapping_def split: option.splits list.splits)

lemma submission_data_distinct:
  "distinct (map fst (submission_data cols m s (drive_mapping fd n parse_date now)))"
proof -
  have "distinct (map fst (filter (\<lambda>(key, v). key \<in> set cols) (drive_mapping fd n parse_date now)))"
    using drive_mapping_distinct by (rule distinct_map_filter)
  moreover have "fst ` set (filter (\<lambda>(key, v). key \<in> set cols) (drive_mapping fd n parse_date now))
      \<subseteq> fst ` set (drive_mapping fd n parse_date now)" by auto
  ultimately show ?thesis
    using drive_mapping_keys[of fd n parse_date now]
    by (auto simp: submission_data_def)
qed

lemma submission_data_lookup:
  assumes "(k, v) \<in> set (drive_mapping fd n parse_date now)" and "k \<in> set cols"
  shows "map_of (submission_data cols m s (drive_mapping fd n parse_date now)) k = Some v"
proof -
  from assms have "(k, v) \<in> set (submission_data cols m s (drive_mapping fd n parse_date now))"
    by (simp add: submission_data_def)
  with submission_data_distinct show ?thesis by (rule map_of_is_SomeI)
qed

lemma submission_query_Inr:
  assumes "submission_query schemas m s fd parse_date now = Inr (q, vals)"
    and "''file_id'' \<in> set (column_names schemas ''submissions'')"
  shows "\<exists>n. (case f_size fd of None \<Rightarrow> Inr 0 | Some sz \<Rightarrow> py_int sz) = Inr n
           \<and> q_table q = ''submissions'' \<and> q_closing q = submission_conflict
           \<and> q_columns q = map fst (surviving (column_names schemas ''submissions'')
                 (submission_data (column_names schemas ''submissions'') m s (drive_mapping fd n parse_date now)))
           \<and> vals = map snd (surviving (column_names schemas ''submissions'')
                 (submission_data (column_names schemas ''submissions'') m s (drive_mapping fd n parse_date now)))"
proof -
  from assms(1) obtain n where n: "(case f_size fd of None \<Rightarrow> Inr 0 | Some sz \<Rightarrow> py_int sz) = Inr n"
    by (auto simp: submission_query_def split: sum.splits)
  let ?cols = "column_names schemas ''submissions''"
  let ?data = "submission_data ?cols m s (drive_mapping fd n parse_date now)"
  from assms n obtain q0 where b: "build_insert_query schemas ''submissions'' ?data = Inr (q0, vals)"
    and q: "q = replace_returning q0 submission_conflict"
    by (auto simp: submission_query_def Let_def split: sum.splits)
  from build_insert_query_Inr[OF b] obtain cols where
    c: "schemas ''submissions'' = Some cols" "q_table q0 = ''submissions''" "q_closing q0 = Returning_id"
       "q_columns q0 = map fst (surviving cols ?data)" "vals = map snd (surviving cols ?data)" by blast
  from c(1) have "?cols = cols" by (simp add: column_names_def)
  with c q n show ?thesis by (auto simp: replace_returning_def)
qed

lemma proposed_row_lookup:
  assumes "q_columns q = map fst kvs" and "vals = map snd kvs" and "k \<noteq> ''id''"
  shows "proposed_row q vals fresh k = map_of kvs k"
  using assms by (simp add: proposed_row_def zip_fst_snd map_add_def split: option.splits)

text \<open>
  Claim C4. When \<open>create_submission\<close> meets a stored row with the file id of the
  incoming file (and the table has a \<open>file_id\<close> column), whatever it returns: no row is
  added, in every row every column but \<open>filename\<close>, \<open>size_bytes\<close>, \<open>modified_time\<close> and
  \<open>detected_at\<close> keeps its value, so \<open>module_id\<close>, \<open>student_id\<close> and \<open>file_id\<close> do, and
  a row with another file id is not touched. When the call succeeds, a row with that
  file id carries the new detection time and the new size.
\<close>

theorem submission_upsert_frame:
  assumes run: "create_submission schemas module_id student_id fd w = (r, w')"
    and col: "''file_id'' \<in> set (column_names schemas ''submissions'')"
    and fid: "f_id fd = Some fid"
    and tab: "w_db w ''submissions'' = Some t"
    and hit: "\<exists>stored \<in> set (t_rows t). stored ''file_id'' = Some (VStr fid)"
  shows "\<exists>t'. w_db w' ''submissions'' = Some t'
      \<and> length (t_rows t') = length (t_rows t)
      \<and> (\<forall>i < length (t_rows t). \<forall>c.
            c \<notin> {''filename'', ''size_bytes'', ''modified_time'', ''detected_at''}
            \<longrightarrow> (t_rows t' ! i) c = (t_rows t ! i) c)
      \<and> (\<forall>i < length (t_rows t).
            (t_rows t ! i) ''file_id'' \<noteq> Some (VStr fid) \<longrightarrow> t_rows t' ! i = t_rows t ! i)
      \<and> (\<forall>sid. r = Inr sid \<longrightarrow>
            (\<exists>i < length (t_rows t).
                (t_rows t ! i) ''file_id'' = Some (VStr fid)
              \<and> (t_rows t' ! i) ''detected_at'' = Some (VTime (w_clock w))
              \<and> (\<forall>n. (case f_size fd of None \<Rightarrow> Inr 0 | Some sz \<Rightarrow> py_int sz) = Inr n
                       \<and> ''size_bytes'' \<in> set (column_names schemas ''submissions'')
                     \<longrightarrow> (t_rows t' ! i) ''size_bytes'' = Some (VInt n))))"
proof -
  let ?goal = ?thesis
  have same: ?goal if "w_db w' = w_db w" "\<And>sid. r \<noteq> Inr sid"
    using that tab by (intro exI[of _ t]) simp
  let ?cols = "column_names schemas ''submissions''"
  show ?thesis
  proof (cases "submission_query schemas module_id student_id fd (w_parse_date w) (w_clock w)")
    case (Inl e)
    with run have "r = Inl e" "w' = w" by (simp_all add: create_submission_def bind_lift)
    then show ?thesis by (intro same) simp_all
  next
    case (Inr built)
    obtain q vals where built: "built = (q, vals)" by (cases built)
    from run Inr built have ins: "insert_returning_id q vals w = (r, w')"
      by (simp add: create_submission_def bind_lift)
    show ?thesis
    proof (cases r)
      case (Inl e)
      with insert_unit(1)[OF ins] show ?thesis by (intro same) simp_all
    next
      case ok: (Inr sid)
      from insert_unit(2)[OF ins ok] obtain rows where
        ri: "run_insert q vals (w_next_id w) (w_clock w) (w_db w) = Inr (w_db w', rows)" by blast
      from submission_query_Inr[OF Inr[unfolded built] col] obtain n where
        n: "(case f_size fd of None \<Rightarrow> Inr 0 | Some sz \<Rightarrow> py_int sz) = Inr n"
        and q: "q_table q = ''submissions''" "q_closing q = submission_conflict"
        and qc: "q_columns q = map fst (surviving ?cols
                   (submission_data ?cols module_id student_id (drive_mapping fd n (w_parse_date w) (w_clock w))))"
        and qv: "vals = map snd (surviving ?cols
                   (submission_data ?cols module_id student_id (drive_mapping fd n (w_parse_date w) (w_clock w))))"
        by blast
      let ?data = "submission_data ?cols module_id student_id (drive_mapping fd n (w_parse_date w) (w_clock w))"
      let ?p = "proposed_row q vals (w_next_id w)"
      have look: "?p k = (if k \<in> set ?cols then (case map_of ?data k of Some (Some v) \<Rightarrow> Some v | _ \<Rightarrow> None) else None)"
        if "k \<noteq> ''id''" for k
        using proposed_row_lookup[OF qc qv that] map_of_surviving[OF submission_data_distinct]
        by simp
      have "(''file_id'', Some (VStr fid)) \<in> set (drive_mapping fd n (w_parse_date w) (w_clock w))"
        using fid by (simp add: drive_mapping_def)
      from submission_data_lookup[OF this col]
      have p_fid: "?p ''file_id'' = Some (VStr fid)" using look[of "''file_id''"] col by simp
      have p_size: "?p ''size_bytes'' = Some (VInt n)" if "''size_bytes'' \<in> set ?cols"
      proof -
        have "(''size_bytes'', Some (VInt n)) \<in> set (drive_mapping fd n (w_parse_date w) (w_clock w))"
          by (simp add: drive_mapping_def)
        from submission_data_lookup[OF this that] show ?thesis
          using look[of "''size_bytes''"] that by simp
      qed
      from run_insert_Inr[OF ri] q tab hit p_fid
      obtain i where i: "i < length (t_rows t)"
        and at: "(t_rows t ! i) ''file_id'' = Some (VStr fid)"
        and d': "w_db w' = (w_db w)(''submissions'' \<mapsto> t\<lparr>t_rows := (t_rows t)
                   [i := foldl (assign ?p (w_clock w)) (t_rows t ! i)
                           [(''filename'', Excluded ''filename''),
                            (''size_bytes'', Excluded ''size_bytes''),
                            (''modified_time'', Excluded ''modified_time''),
                            (''detected_at'', Now_call)]]\<rparr>)"
        by (auto simp: submission_conflict_def)
      define new where "new = foldl (assign ?p (w_clock w)) (t_rows t ! i)
                           [(''filename'', Excluded ''filename''),
                            (''size_bytes'', Excluded ''size_bytes''),
                            (''modified_time'', Excluded ''modified_time''),
                            (''detected_at'', Now_call)]"
      define t' where "t' = t\<lparr>t_rows := (t_rows t)[i := new]\<rparr>"
      have frame: "new c = (t_rows t ! i) c"
        if "c \<notin> {''filename'', ''size_bytes'', ''modified_time'', ''detected_at''}" for c
        unfolding new_def using that by (intro foldl_assign_frame) auto
      have stamp: "new ''detected_at'' = Some (VTime (w_clock w))" by (simp add: new_def)
      have size: "new ''size_bytes'' = ?p ''size_bytes''" by (simp add: new_def)
      have 1: "w_db w' ''submissions'' = Some t'" using d' by (simp add: t'_def new_def)
      have 2: "length (t_rows t') = length (t_rows t)" by (simp add: t'_def)
      have rows': "t_rows t' ! j = (if j = i then new else t_rows t ! j)" if "j < length (t_rows t)" for j
        using that by (simp add: t'_def nth_list_update)
      have 3: "\<forall>j < length (t_rows t). \<forall>c.
            c \<notin> {''filename'', ''size_bytes'', ''modified_time'', ''detected_at''}
            \<longrightarrow> (t_rows t' ! j) c = (t_rows t ! j) c"
      proof (intro allI impI)
        fix j c assume j: "j < length (t_rows t)"
          and c: "c \<notin> {''filename'', ''size_bytes'', ''modified_time'', ''detected_at''}"
        show "(t_rows t' ! j) c = (t_rows t ! j) c"
          unfolding rows'[OF j] using frame[OF c] by (cases "j = i") simp_all
      qed
      have 4: "\<forall>j < length (t_rows t).
            (t_rows t ! j) ''file_id'' \<noteq> Some (VStr fid) \<longrightarrow> t_rows t' ! j = t_rows t ! j"
      proof (intro allI impI)
        fix j assume j: "j < length (t_rows t)"
          and other: "(t_rows t ! j) ''file_id'' \<noteq> Some (VStr fid)"
        from other at have "j \<noteq> i" by auto
        then show "t_rows t' ! j = t_rows t ! j" unfolding rows'[OF j] by simp
      qed
      have 5: "\<exists>j < length (t_rows t).
                (t_rows t ! j) ''file_id'' = Some (VStr fid)
              \<and> (t_rows t' ! j) ''detected_at'' = Some (VTime (w_clock w))
              \<and> (\<forall>n'. (case f_size fd of None \<Rightarrow> Inr 0 | Some sz \<Rightarrow> py_int sz) = Inr n'
                       \<and> ''size_bytes'' \<in> set ?cols
                     \<longrightarrow> (t_rows t' ! j) ''size_bytes'' = Some (VInt n'))"
      proof (intro exI[of _ i] conjI allI impI)
        show "i < length (t_rows t)" by (rule i)
        show "(t_rows t ! i) ''file_id'' = Some (VStr fid)" by (rule at)
        show "(t_rows t' ! i) ''detected_at'' = Some (VTime (w_clock w))"
          unfolding rows'[OF i] using stamp by simp
        fix n' assume a: "(case f_size fd of None \<Rightarrow> Inr 0 | Some sz \<Rightarrow> py_int sz) = Inr n'
                       \<and> ''size_bytes'' \<in> set ?cols"
        with n have "n' = n" by simp
        with a p_size size show "(t_rows t' ! i) ''size_bytes'' = Some (VInt n')"
          unfolding rows'[OF i] by simp
      qed
      have 6: "\<forall>sid'. r = Inr sid' \<longrightarrow>
            (\<exists>j < length (t_rows t).
                (t_rows t ! j) ''file_id'' = Some (VStr fid)
              \<and> (t_rows t' ! j) ''detected_at'' = Some (VTime (w_clock w))
              \<and> (\<forall>n'. (case f_size fd of None \<Rightarrow> Inr 0 | Some sz \<Rightarrow> py_int sz) = Inr n'
                       \<and> ''size_bytes'' \<in> set ?cols
                     \<longrightarrow> (t_rows t' ! j) ''size_bytes'' = Some (VInt n')))"
        using 5 by (intro allI impI)
      show ?thesis
        by (rule exI[of _ t'], intro conjI) (rule 1 2 3 4 6)+
    qed
  qed
qed

subsection \<open>Students\<close>

lemma email_of_eq: "r' ''email'' = r ''email'' \<Longrightarrow> email_of r' = email_of r"
  by (simp add: email_of_def)

lemma email_of_mem:
  "e \<in> set (concat (map email_of rs)) \<Longrightarrow> \<exists>r \<in> set rs. r ''email'' = Some (VStr e)"
  by (auto simp: email_of_def split: option.splits pyval.splits if_splits)

lemma emails_update:
  assumes "i < length rs" and "email_of new = email_of (rs ! i)"
  shows "concat (map email_of (rs[i := new])) = concat (map email_of rs)"
proof -
  have "map email_of (rs[i := new]) = (map email_of rs)[i := email_of (rs ! i)]"
    using assms by (simp add: map_update)
  also have "\<dots> = map email_of rs" using assms(1) by (simp add: list_update_same_conv)
  finally show ?thesis by simp
qed

lemma student_query_Inr:
  assumes "student_query schemas name email = Inr (q, vals)"
  shows "q_table q = ''students''
     \<and> q_closing q = (if ''email'' \<in> set (column_names schemas ''students'') \<and> CHR ''@'' \<in> set email
                      then student_conflict else Returning_id)
     \<and> q_columns q = map fst (surviving (column_names schemas ''students'')
                         [(''full_name'', Some (VStr name)), (''email'', Some (VStr email))])
     \<and> vals = map snd (surviving (column_names schemas ''students'')
                         [(''full_name'', Some (VStr name)), (''email'', Some (VStr email))])"
proof -
  let ?data = "[(''full_name'', Some (VStr name)), (''email'', Some (VStr email))]"
  from assms obtain q0 where b: "build_insert_query schemas ''students'' ?data = Inr (q0, vals)"
    and q: "q = (if ''email'' \<in> set (column_names schemas ''students'') \<and> CHR ''@'' \<in> set email
                 then replace_returning q0 student_conflict else q0)"
    by (auto simp: student_query_def Let_def split: sum.splits if_splits)
  from build_insert_query_Inr[OF b] obtain cols where
    c: "schemas ''students'' = Some cols" "q_table q0 = ''students''" "q_closing q0 = Returning_id"
       "q_columns q0 = map fst (surviving cols ?data)" "vals = map snd (surviving cols ?data)" by blast
  from c(1) have "column_names schemas ''students'' = cols" by (simp add: column_names_def)
  with c q show ?thesis by (auto simp: replace_returning_def)
qed

lemma student_query_conflict:
  assumes "''email'' \<in> set (column_names schemas ''students'')" and "CHR ''@'' \<in> set email"
  shows "\<exists>q vals. student_query schemas name email = Inr (q, vals)
           \<and> q_closing q = student_conflict \<and> ''email'' \<in> set (q_columns q)"
proof -
  let ?data = "[(''full_name'', Some (VStr name)), (''email'', Some (VStr email))]"
  from assms(1) obtain cols where cols: "schemas ''students'' = Some cols" "''email'' \<in> set cols"
    by (cases "schemas ''students''") (simp_all add: column_names_def)
  then have ne: "surviving cols ?data \<noteq> []" by (simp add: surviving_def)
  with cols obtain q0 vals where b: "build_insert_query schemas ''students'' ?data = Inr (q0, vals)"
    by (auto simp: build_insert_query_def insert_loop_surviving)
  with assms have "student_query schemas name email = Inr (replace_returning q0 student_conflict, vals)"
    by (auto simp: student_query_def Let_def)
  from student_query_Inr[OF this] assms this show ?thesis
    by (auto simp: surviving_keys)
qed

lemma student_proposed:
  assumes "student_query schemas name email = Inr (q, vals)"
  shows "proposed_row q vals fresh ''email'' =
           (if ''email'' \<in> set (column_names schemas ''students'') then Some (VStr email) else None)"
    and "proposed_row q vals fresh ''full_name'' =
           (if ''full_name'' \<in> set (column_names schemas ''students'') then Some (VStr name) else None)"
proof -
  let ?data = "[(''full_name'', Some (VStr name)), (''email'', Some (VStr email))]"
  from student_query_Inr[OF assms] have
    qc: "q_columns q = map fst (surviving (column_names schemas ''students'') ?data)" and
    qv: "vals = map snd (surviving (column_names schemas ''students'') ?data)" by simp_all
  have d: "distinct (map fst ?data)" by simp
  show "proposed_row q vals fresh ''email'' =
           (if ''email'' \<in> set (column_names schemas ''students'') then Some (VStr email) else None)"
    using proposed_row_lookup[OF qc qv, of "''email''" fresh] map_of_surviving[OF d]
    by simp
  show "proposed_row q vals fresh ''full_name'' =
           (if ''full_name'' \<in> set (column_names schemas ''students'') then Some (VStr name) else None)"
    using proposed_row_lookup[OF qc qv, of "''full_name''" fresh] map_of_surviving[OF d]
    by simp
qed

text \<open>What a call of \<open>create_student\<close> can have done to the rows of the students.\<close>

lemma create_student_rows:
  assumes run: "create_student schemas name email w = (r, w')"
  shows "((\<exists>e. r = Inl e) \<and> student_rows (w_db w') = student_rows (w_db w))
     \<or> (\<exists>q vals. student_query schemas name email = Inr (q, vals)
           \<and> student_rows (w_db w') = student_rows (w_db w) @ [proposed_row q vals (w_next_id w)]
           \<and> (q_closing q = student_conflict \<longrightarrow>
                (\<forall>row \<in> set (student_rows (w_db w)). row ''email'' \<noteq> Some (VStr email))))
     \<or> (\<exists>q vals i. student_query schemas name email = Inr (q, vals)
           \<and> q_closing q = student_conflict
           \<and> i < length (student_rows (w_db w))
           \<and> (student_rows (w_db w) ! i) ''email'' = Some (VStr email)
           \<and> student_rows (w_db w') = (student_rows (w_db w))
                [i := (student_rows (w_db w) ! i)
                        (''full_name'' := proposed_row q vals (w_next_id w) ''full_name'',
                         ''updated_at'' \<mapsto> VTime (w_clock w))])"
proof (cases "student_query schemas name email")
  case (Inl e)
  with run have "w' = w" "r = Inl e" by (simp_all add: create_student_def bind_lift)
  then show ?thesis by simp
next
  case (Inr built)
  obtain q vals where built: "built = (q, vals)" by (cases built)
  note sq = Inr[unfolded built]
  from run sq have ins: "insert_returning_id q vals w = (r, w')"
    by (simp add: create_student_def bind_lift)
  show ?thesis
  proof (cases r)
    case (Inl e)
    with insert_unit(1)[OF ins] show ?thesis by simp
  next
    case ok: (Inr sid)
    from insert_unit(2)[OF ins ok] obtain rows where
      ri: "run_insert q vals (w_next_id w) (w_clock w) (w_db w) = Inr (w_db w', rows)" by blast
    from student_query_Inr[OF sq] have tbl: "q_table q = ''students''" by simp
    let ?p = "proposed_row q vals (w_next_id w)"
    from run_insert_Inr[OF ri, unfolded tbl] obtain t where t: "w_db w ''students'' = Some t" and
      alt: "(w_db w' = (w_db w)(''students'' \<mapsto> t\<lparr>t_rows := t_rows t @ [?p]\<rparr>)
             \<and> (q_closing q = Returning_id
                \<or> (\<exists>target sets. q_closing q = On_conflict target sets
                      \<and> (\<forall>r \<in> set (t_rows t). \<not> (?p target \<noteq> None \<and> r target = ?p target)))))
            \<or> (\<exists>target sets i. q_closing q = On_conflict target sets \<and> i < length (t_rows t)
                  \<and> ?p target \<noteq> None
                  \<and> (t_rows t ! i) target = ?p target
                  \<and> w_db w' = (w_db w)(''students'' \<mapsto> t\<lparr>t_rows := (t_rows t)
                            [i := foldl (assign ?p (w_clock w)) (t_rows t ! i) sets]\<rparr>))"
      by blast
    from t have rows_w: "student_rows (w_db w) = t_rows t" by (simp add: student_rows_def)
    from alt show ?thesis
    proof (elim disjE conjE exE)
      assume d': "w_db w' = (w_db w)(''students'' \<mapsto> t\<lparr>t_rows := t_rows t @ [?p]\<rparr>)"
        and "q_closing q = Returning_id"
      then have "student_rows (w_db w') = student_rows (w_db w) @ [?p]"
        "q_closing q \<noteq> student_conflict"
        using rows_w by (simp_all add: student_rows_def student_conflict_def)
      with sq show ?thesis by blast
    next
      fix target sets
      assume d': "w_db w' = (w_db w)(''students'' \<mapsto> t\<lparr>t_rows := t_rows t @ [?p]\<rparr>)"
        and cl: "q_closing q = On_conflict target sets"
        and none: "\<forall>r \<in> set (t_rows t). \<not> (?p target \<noteq> None \<and> r target = ?p target)"
      from d' rows_w have app: "student_rows (w_db w') = student_rows (w_db w) @ [?p]"
        by (simp add: student_rows_def)
      from student_query_Inr[OF sq] cl have cond: "''email'' \<in> set (column_names schemas ''students'')"
        and target: "target = ''email''"
        by (auto simp: student_conflict_def split: if_splits)
      from student_proposed(1)[OF sq, of "w_next_id w"] cond have "?p ''email'' = Some (VStr email)" by simp
      with none target rows_w
      have "\<forall>row \<in> set (student_rows (w_db w)). row ''email'' \<noteq> Some (VStr email)" by auto
      with app sq show ?thesis by blast
    next
      fix target sets i
      assume cl: "q_closing q = On_conflict target sets" and i: "i < length (t_rows t)"
        and at: "(t_rows t ! i) target = ?p target"
        and d': "w_db w' = (w_db w)(''students'' \<mapsto> t\<lparr>t_rows := (t_rows t)
                            [i := foldl (assign ?p (w_clock w)) (t_rows t ! i) sets]\<rparr>)"
      from student_query_Inr[OF sq] cl have cond: "''email'' \<in> set (column_names schemas ''students'')"
        and target: "target = ''email''"
        and sets: "sets = [(''full_name'', Excluded ''full_name''), (''updated_at'', Now_call)]"
        and conflict: "q_closing q = student_conflict"
        by (auto simp: student_conflict_def split: if_splits)
      from student_proposed(1)[OF sq, of "w_next_id w"] cond have "?p ''email'' = Some (VStr email)" by simp
      with at target rows_w have e: "(student_rows (w_db w) ! i) ''email'' = Some (VStr email)" by simp
      from d' rows_w sets have "student_rows (w_db w') = (student_rows (w_db w))
                [i := (student_rows (w_db w) ! i)
                        (''full_name'' := ?p ''full_name'', ''updated_at'' \<mapsto> VTime (w_clock w))]"
        by (simp add: student_rows_def)
      with sq conflict i rows_w e show ?thesis by auto
    qed
  qed
qed

text \<open>
  Claim C5. When the students table has an \<open>email\<close> column and the address contains an
  at-sign, the statement of \<open>create_student\<close> is built and carries the clause
  \<open>ON CONFLICT (email) DO UPDATE SET full_name = EXCLUDED.full_name, updated_at = NOW()\<close>.
  Every call, whatever it returns, keeps the addresses with an at-sign distinct if they
  were. A call for an address that a row already holds adds no row, and when it
  succeeds a row with that address carries the new name.
\<close>

theorem create_student_keeps_emails_unique:
  assumes run: "create_student schemas name email w = (r, w')"
  shows "(''email'' \<in> set (column_names schemas ''students'') \<and> CHR ''@'' \<in> set email \<longrightarrow>
            (\<exists>q vals. student_query schemas name email = Inr (q, vals)
               \<and> q_closing q = student_conflict \<and> ''email'' \<in> set (q_columns q)))
     \<and> (distinct (valid_emails (w_db w)) \<longrightarrow> distinct (valid_emails (w_db w')))
     \<and> (''email'' \<in> set (column_names schemas ''students'') \<and> CHR ''@'' \<in> set email
          \<and> (\<exists>row \<in> set (student_rows (w_db w)). row ''email'' = Some (VStr email)) \<longrightarrow>
            length (student_rows (w_db w')) = length (student_rows (w_db w))
          \<and> (\<forall>sid. r = Inr sid \<and> ''full_name'' \<in> set (column_names schemas ''students'') \<longrightarrow>
                (\<exists>row \<in> set (student_rows (w_db w')).
                    row ''email'' = Some (VStr email) \<and> row ''full_name'' = Some (VStr name))))"
proof (intro conjI)
  let ?cols = "column_names schemas ''students''"
  let ?rows = "student_rows (w_db w)"
  let ?rows' = "student_rows (w_db w')"
  show "''email'' \<in> set ?cols \<and> CHR ''@'' \<in> set email \<longrightarrow>
            (\<exists>q vals. student_query schemas name email = Inr (q, vals)
               \<and> q_closing q = student_conflict \<and> ''email'' \<in> set (q_columns q))"
    using student_query_conflict by blast
  consider (same) "\<exists>e. r = Inl e" "?rows' = ?rows"
    | (added) q vals where "student_query schemas name email = Inr (q, vals)"
        "?rows' = ?rows @ [proposed_row q vals (w_next_id w)]"
        "q_closing q = student_conflict \<longrightarrow> (\<forall>row \<in> set ?rows. row ''email'' \<noteq> Some (VStr email))"
    | (updated) q vals i where "student_query schemas name email = Inr (q, vals)"
        "q_closing q = student_conflict" "i < length ?rows"
        "(?rows ! i) ''email'' = Some (VStr email)"
        "?rows' = ?rows[i := (?rows ! i)(''full_name'' := proposed_row q vals (w_next_id w) ''full_name'',
                                        ''updated_at'' \<mapsto> VTime (w_clock w))]"
    using create_student_rows[OF run] by (elim disjE exE conjE) blast+
  note cases3 = this
  show "distinct (valid_emails (w_db w)) \<longrightarrow> distinct (valid_emails (w_db w'))"
  proof
    assume dist: "distinct (valid_emails (w_db w))"
    from cases3 show "distinct (valid_emails (w_db w'))"
    proof cases
      case same
      with dist show ?thesis by (simp add: valid_emails_def)
    next
      case added
      let ?p = "proposed_row q vals (w_next_id w)"
      have pe: "?p ''email'' = (if ''email'' \<in> set ?cols then Some (VStr email) else None)"
        by (rule student_proposed(1)[OF added(1)])
      have cl: "q_closing q = (if ''email'' \<in> set ?cols \<and> CHR ''@'' \<in> set email
                      then student_conflict else Returning_id)"
        using student_query_Inr[OF added(1)] by simp
      show ?thesis
      proof (cases "''email'' \<in> set ?cols \<and> CHR ''@'' \<in> set email")
        case True
        with cl added(3) have "\<forall>row \<in> set ?rows. row ''email'' \<noteq> Some (VStr email)" by simp
        with email_of_mem[of email ?rows] have "email \<notin> set (valid_emails (w_db w))"
          by (auto simp: valid_emails_def)
        moreover from True pe have "email_of ?p = [email]" by (simp add: email_of_def)
        ultimately show ?thesis using dist added(2) by (simp add: valid_emails_def)
      next
        case False
        with pe have "email_of ?p = []" by (auto simp: email_of_def)
        with dist added(2) show ?thesis by (simp add: valid_emails_def)
      qed
    next
      case updated
      have "email_of ((?rows ! i)(''full_name'' := proposed_row q vals (w_next_id w) ''full_name'',
                                  ''updated_at'' \<mapsto> VTime (w_clock w))) = email_of (?rows ! i)"
        by (rule email_of_eq) simp
      from emails_update[OF updated(3) this] updated(5) dist show ?thesis
        by (simp add: valid_emails_def)
    qed
  qed
  show "''email'' \<in> set ?cols \<and> CHR ''@'' \<in> set email
          \<and> (\<exists>row \<in> set ?rows. row ''email'' = Some (VStr email)) \<longrightarrow>
            length ?rows' = length ?rows
          \<and> (\<forall>sid. r = Inr sid \<and> ''full_name'' \<in> set ?cols \<longrightarrow>
                (\<exists>row \<in> set ?rows'.
                    row ''email'' = Some (VStr email) \<and> row ''full_name'' = Some (VStr name)))"
  proof
    assume hyp: "''email'' \<in> set ?cols \<and> CHR ''@'' \<in> set email
          \<and> (\<exists>row \<in> set ?rows. row ''email'' = Some (VStr email))"
    from cases3 show "length ?rows' = length ?rows
          \<and> (\<forall>sid. r = Inr sid \<and> ''full_name'' \<in> set ?cols \<longrightarrow>
                (\<exists>row \<in> set ?rows'.
                    row ''email'' = Some (VStr email) \<and> row ''full_name'' = Some (VStr name)))"
    proof cases
      case same
      then show ?thesis by auto
    next
      case added
      from student_query_Inr[OF added(1)] hyp have "q_closing q = student_conflict" by simp
      with added(3) hyp show ?thesis by blast
    next
      case updated
      let ?new = "(?rows ! i)(''full_name'' := proposed_row q vals (w_next_id w) ''full_name'',
                              ''updated_at'' \<mapsto> VTime (w_clock w))"
      from updated(3,5) have mem: "?new \<in> set ?rows'" by (simp add: set_update_memI)
      have e: "?new ''email'' = Some (VStr email)" using updated(4) by simp
      have n: "?new ''full_name'' = Some (VStr name)" if "''full_name'' \<in> set ?cols"
        using student_proposed(2)[OF updated(1), of "w_next_id w"] that by simp
      from updated(5) have "length ?rows' = length ?rows" by simp
      with mem e n show ?thesis by blast
    qed
  qed
qed

section \<open>Properties of the full scan\<close>

lemma scan_one_accounts:
  assumes "scan_one schemas module (fr, w) = (fr', w')"
  shows "fr_sync_id fr' = fr_sync_id fr \<and> fr_total_modules fr' = fr_total_modules fr
     \<and> fr_sync_results fr' = fr_sync_results fr
     \<and> (\<exists>errs. fr_errors fr' = fr_errors fr @ errs
            \<and> length errs + fr_modules_scanned fr' = Suc (fr_modules_scanned fr))"
  using assms
  by (auto simp: scan_one_def split: option.splits prod.splits scan_result.splits)

lemma fold_scan_one_accounts:
  assumes "fold (scan_one schemas) modules (fr, w) = (fr', w')"
  shows "fr_sync_id fr' = fr_sync_id fr \<and> fr_total_modules fr' = fr_total_modules fr
     \<and> fr_sync_results fr' = fr_sync_results fr
     \<and> (\<exists>errs. fr_errors fr' = fr_errors fr @ errs
            \<and> length errs + fr_modules_scanned fr' = fr_modules_scanned fr + length modules)"
  using assms
proof (induction modules arbitrary: fr w)
  case Nil
  then show ?case by simp
next
  case (Cons m modules)
  obtain fr1 w1 where one: "scan_one schemas m (fr, w) = (fr1, w1)"
    by (cases "scan_one schemas m (fr, w)")
  with Cons.prems have rest: "fold (scan_one schemas) modules (fr1, w1) = (fr', w')" by simp
  from scan_one_accounts[OF one] obtain errs1 where
    a: "fr_sync_id fr1 = fr_sync_id fr" "fr_total_modules fr1 = fr_total_modules fr"
       "fr_sync_results fr1 = fr_sync_results fr"
       "fr_errors fr1 = fr_errors fr @ errs1"
       "length errs1 + fr_modules_scanned fr1 = Suc (fr_modules_scanned fr)" by blast
  from Cons.IH[OF rest] obtain errs2 where
    b: "fr_sync_id fr' = fr_sync_id fr1" "fr_total_modules fr' = fr_total_modules fr1"
       "fr_sync_results fr' = fr_sync_results fr1"
       "fr_errors fr' = fr_errors fr1 @ errs2"
       "length errs2 + fr_modules_scanned fr' = fr_modules_scanned fr1 + length modules" by blast
  from a b have "fr_errors fr' = fr_errors fr @ (errs1 @ errs2)"
    "length (errs1 @ errs2) + fr_modules_scanned fr' = fr_modules_scanned fr + length (m # modules)"
    by simp_all
  with a b show ?case by (metis (no_types))
qed

lemma share_errors_fields [simp]:
  "fr_errors (share_errors fr) = fr_errors fr"
  "fr_sync_id (share_errors fr) = fr_sync_id fr"
  "fr_total_modules (share_errors fr) = fr_total_modules fr"
  "fr_modules_scanned (share_errors fr) = fr_modules_scanned fr"
  by (simp_all add: share_errors_def split: sync_results.splits)

text \<open>What holds when steps 1 to 4 return their results.\<close>

lemma scan_steps_Inr:
  assumes "scan_steps schemas sync_id w = (Inr fr, w')"
  shows "fr_sync_id fr = sync_id"
    and "\<exists>w3. update_sync_log schemas sync_id (final_status fr) (final_kwargs fr) w3 = (Inr (), w')"
    and "\<exists>errs. fr_errors fr = sync_errors_of (fst (sync_modules_to_db schemas w)) @ errs
            \<and> length errs + fr_modules_scanned fr = fr_total_modules fr"
proof -
  obtain sr w1 where s: "sync_modules_to_db schemas w = (sr, w1)"
    by (cases "sync_modules_to_db schemas w")
  from assms s obtain modules w2 where g: "get_all_modules w1 = (Inr modules, w2)"
    by (auto simp: scan_steps_def split: prod.splits sum.splits)
  let ?fr0 = "\<lparr>fr_sync_id = sync_id, fr_sync_results = sr,
                fr_total_modules = length modules, fr_modules_scanned = 0,
                fr_total_files = 0, fr_total_submissions = 0, fr_total_students = 0,
                fr_errors = sync_errors_of sr, fr_module_details = []\<rparr>"
  obtain fr3 w3 where f: "fold (scan_one schemas) modules (?fr0, w2) = (fr3, w3)"
    by (cases "fold (scan_one schemas) modules (?fr0, w2)")
  from assms s g f have u: "update_sync_log schemas sync_id (final_status fr3) (final_kwargs fr3) w3 = (Inr (), w')"
    and fr: "fr = share_errors fr3"
    by (auto simp: scan_steps_def split: prod.splits sum.splits)
  from fold_scan_one_accounts[OF f] obtain errs where
    acc: "fr_sync_id fr3 = sync_id" "fr_total_modules fr3 = length modules"
         "fr_errors fr3 = sync_errors_of sr @ errs"
         "length errs + fr_modules_scanned fr3 = length modules" by auto
  have same: "final_status fr = final_status fr3" "final_kwargs fr = final_kwargs fr3"
    unfolding fr by (simp_all add: final_status_def final_kwargs_def share_errors_def
                               split: sync_results.splits)
  show "fr_sync_id fr = sync_id" using acc fr by simp
  show "\<exists>w3. update_sync_log schemas sync_id (final_status fr) (final_kwargs fr) w3 = (Inr (), w')"
    using u same by auto
  show "\<exists>errs. fr_errors fr = sync_errors_of (fst (sync_modules_to_db schemas w)) @ errs
            \<and> length errs + fr_modules_scanned fr = fr_total_modules fr"
    using acc fr s by simp
qed

lemma update_sets_status:
  assumes "update_sync_log schemas sync_id status kwargs w = (Inr (), w')"
    and "row \<in> set (sync_log_rows (w_db w'))"
    and "sync_id \<noteq> None" and "row ''id'' = sync_id"
  shows "row ''status'' = Some (VStr status)"
proof -
  let ?m = "map_of (zip (fst (sync_log_update schemas status kwargs (w_clock w)))
                        (snd (sync_log_update schemas status kwargs (w_clock w))))"
  have no_id: "?m ''id'' = None"
    by (simp add: sync_log_assignment optional_fields_def)
  from assms(2) obtain old where old: "old \<in> set (sync_log_rows (w_db w))"
    and row: "row = (if sync_id \<noteq> None \<and> old ''id'' = sync_id then old ++ ?m else old)"
    unfolding update_sync_log_effect(2)[OF assms(1) refl] by auto
  have "old ''id'' = sync_id"
  proof (rule ccontr)
    assume "old ''id'' \<noteq> sync_id"
    with row assms(4) show False by simp
  qed
  with row assms(3) have "row = old ++ ?m" by simp
  then show ?thesis by (simp add: map_add_def sync_log_assignment)
qed

lemma create_sync_log_Inl:
  assumes "create_sync_log schemas sync_type w = (Inl e, w1)"
  shows "w_db w1 = w_db w"
proof (cases "build_insert_query schemas ''sync_logs''
                [(''sync_type'', Some (VStr sync_type)), (''status'', Some (VStr ''running'')),
                 (''started_at'', Some (VTime (w_clock w)))]")
  case (Inl e')
  with assms show ?thesis by (simp add: create_sync_log_def bind_lift Let_def)
next
  case (Inr built)
  obtain q vals where "built = (q, vals)" by (cases built)
  with Inr assms have "insert_returning_id q vals w = (Inl e, w1)"
    by (simp add: create_sync_log_def bind_lift Let_def)
  from insert_unit(1)[OF this] show ?thesis by simp
qed

subsection \<open>The row of the run stays\<close>

lemma has_sync_row_same:
  "has_sync_row sid d \<Longrightarrow> sync_log_rows d' = sync_log_rows d \<Longrightarrow> has_sync_row sid d'"
  by (simp add: has_sync_row_def)

lemma sync_rows_other_table:
  "name \<noteq> ''sync_logs'' \<Longrightarrow> sync_log_rows (d(name \<mapsto> t)) = sync_log_rows d"
  by (simp add: sync_log_rows_def)

lemma sync_rows_this_table:
  "sync_log_rows (d(''sync_logs'' \<mapsto> t)) = t_rows t"
  by (simp add: sync_log_rows_def)

lemma run_statement_keeps_row:
  assumes run: "run_statement stmt fresh now d = Inr (d', rows)"
    and ok: "harmless stmt"
    and has: "has_sync_row sid d"
  shows "has_sync_row sid d'"
proof (cases stmt)
  case (Insert q vals)
  with run have ri: "run_insert q vals fresh now d = Inr (d', rows)" by simp
  let ?p = "proposed_row q vals fresh"
  from run_insert_Inr[OF ri] obtain t where t: "d (q_table q) = Some t" and
    alt: "d' = d(q_table q \<mapsto> t\<lparr>t_rows := t_rows t @ [?p]\<rparr>)
       \<or> (\<exists>target sets i. q_closing q = On_conflict target sets \<and> i < length (t_rows t)
              \<and> d' = d(q_table q \<mapsto> t\<lparr>t_rows := (t_rows t)
                        [i := foldl (assign ?p now) (t_rows t ! i) sets]\<rparr>))"
    by blast
  show ?thesis
  proof (cases "q_table q = ''sync_logs''")
    case False
    with alt have "sync_log_rows d' = sync_log_rows d"
      by (auto simp: sync_rows_other_table)
    with has show ?thesis by (rule has_sync_row_same)
  next
    case True
    with t have rows_d: "sync_log_rows d = t_rows t" by (simp add: sync_log_rows_def)
    from has rows_d obtain row where row: "row \<in> set (t_rows t)" "row ''id'' = sid"
      by (auto simp: has_sync_row_def)
    from alt show ?thesis
    proof (elim disjE exE conjE)
      assume "d' = d(q_table q \<mapsto> t\<lparr>t_rows := t_rows t @ [?p]\<rparr>)"
      with True have "sync_log_rows d' = t_rows t @ [?p]" by (simp add: sync_rows_this_table)
      with row show ?thesis by (auto simp: has_sync_row_def)
    next
      fix target sets i
      assume cl: "q_closing q = On_conflict target sets" and i: "i < length (t_rows t)"
        and d': "d' = d(q_table q \<mapsto> t\<lparr>t_rows := (t_rows t)
                        [i := foldl (assign ?p now) (t_rows t ! i) sets]\<rparr>)"
      from ok Insert cl have "''id'' \<notin> fst ` set sets" by (simp add: harmless_def)
      then have keep: "foldl (assign ?p now) (t_rows t ! i) sets ''id'' = (t_rows t ! i) ''id''"
        by (rule foldl_assign_frame)
      from d' True have rows': "sync_log_rows d' = (t_rows t)[i := foldl (assign ?p now) (t_rows t ! i) sets]"
        by (simp add: sync_rows_this_table)
      from row(1) obtain j where j: "j < length (t_rows t)" "t_rows t ! j = row"
        by (auto simp: in_set_conv_nth)
      have "(sync_log_rows d' ! j) ''id'' = sid"
        unfolding rows' using j i keep row(2) by (cases "j = i") (simp_all add: nth_list_update)
      moreover have "sync_log_rows d' ! j \<in> set (sync_log_rows d')"
        unfolding rows' using j(1) by simp
      ultimately show ?thesis unfolding has_sync_row_def by blast
    qed
  qed
next
  case (Update name cols vals idv)
  with run have "run_update name cols vals idv d = Inr (d', rows)" by simp
  from run_update_rows[OF this] obtain t where t: "d name = Some t"
    and d': "d' = d(name \<mapsto> t\<lparr>t_rows := map (\<lambda>r. if idv \<noteq> None \<and> r ''id'' = idv
                                                   then r ++ map_of (zip cols vals) else r) (t_rows t)\<rparr>)"
    by blast
  show ?thesis
  proof (cases "name = ''sync_logs''")
    case False
    with d' have "sync_log_rows d' = sync_log_rows d" by (simp add: sync_rows_other_table)
    with has show ?thesis by (rule has_sync_row_same)
  next
    case True
    from ok Update have "''id'' \<notin> set cols" by (simp add: harmless_def)
    then have "map_of (zip cols vals) ''id'' = None"
      by (auto simp: map_of_eq_None_iff dest: set_zip_leftD)
    then have keep: "(r ++ map_of (zip cols vals)) ''id'' = r ''id''" for r
      by (simp add: map_add_def)
    from has True t obtain row where row: "row \<in> set (t_rows t)" "row ''id'' = sid"
      by (auto simp: has_sync_row_def sync_log_rows_def)
    let ?f = "\<lambda>r. if idv \<noteq> None \<and> r ''id'' = idv then r ++ map_of (zip cols vals) else r"
    from d' True have rows': "sync_log_rows d' = map ?f (t_rows t)"
      by (simp add: sync_rows_this_table)
    have "?f row ''id'' = sid" using row(2) keep by simp
    moreover have "?f row \<in> set (sync_log_rows d')" unfolding rows' using row(1) by simp
    ultimately show ?thesis unfolding has_sync_row_def by (rule bexI)
  qed
next
  case (Select_all name)
  with run have "d' = d" by (auto simp: run_select_all_def split: option.splits)
  with has show ?thesis by simp
next
  case (Select_where name c v)
  with run have "d' = d" by (auto simp: run_select_where_def split: option.splits if_splits)
  with has show ?thesis by simp
next
  case Select_next_order
  with run have "d' = d" by (auto simp: run_select_next_order_def split: option.splits if_splits)
  with has show ?thesis by simp
qed

lemma keeps_rowD:
  "keeps_row sid m \<Longrightarrow> m w = (r, w') \<Longrightarrow> has_sync_row sid (w_db w) \<Longrightarrow> has_sync_row sid (w_db w')"
  unfolding keeps_row_def by (metis snd_conv)

lemma keeps_rowI:
  "(\<And>w r w'. m w = (r, w') \<Longrightarrow> has_sync_row sid (w_db w) \<Longrightarrow> has_sync_row sid (w_db w'))
   \<Longrightarrow> keeps_row sid m"
  unfolding keeps_row_def by (metis prod.collapse)

lemma keeps_lift: "keeps_row sid (lift r)"
  by (simp add: keeps_row_def lift_def)

lemma keeps_bind:
  assumes m: "keeps_row sid m" and f: "\<And>a. keeps_row sid (f a)"
  shows "keeps_row sid (bind m f)"
proof (rule keeps_rowI)
  fix w r w'
  assume run: "bind m f w = (r, w')" and has: "has_sync_row sid (w_db w)"
  obtain r1 w1 where m1: "m w = (r1, w1)" by (cases "m w")
  from keeps_rowD[OF m m1 has] have h1: "has_sync_row sid (w_db w1)" .
  show "has_sync_row sid (w_db w')"
  proof (cases r1)
    case (Inl e)
    with run m1 have "w' = w1" by (simp add: bind_def)
    with h1 show ?thesis by simp
  next
    case (Inr a)
    with run m1 have "f a w1 = (r, w')" by (simp add: bind_def)
    from keeps_rowD[OF f this h1] show ?thesis .
  qed
qed

lemma keeps_unit:
  assumes ok: "harmless stmt"
  shows "keeps_row sid (get_cursor (bind (execute stmt) (\<lambda>rows. lift (f rows))))"
proof (rule keeps_rowI)
  fix w r w'
  assume run: "get_cursor (bind (execute stmt) (\<lambda>rows. lift (f rows))) w = (r, w')"
    and has: "has_sync_row sid (w_db w)"
  show "has_sync_row sid (w_db w')"
  proof (cases r)
    case (Inl e)
    from statement_unit(1)[OF run Inl] has show ?thesis by simp
  next
    case (Inr a)
    from statement_unit(2)[OF run Inr] obtain rows where
      "run_statement stmt (w_next_id w) (w_clock w) (w_db w) = Inr (w_db w', rows)" by blast
    from run_statement_keeps_row[OF this ok has] show ?thesis .
  qed
qed

lemma execute_bind: "execute stmt = bind (execute stmt) (\<lambda>rows. lift (Inr rows))"
  by (rule ext) (simp add: bind_def lift_def split: prod.splits sum.splits)

lemma keeps_insert:
  "harmless (Insert q vals) \<Longrightarrow> keeps_row sid (insert_returning_id q vals)"
  unfolding insert_returning_id_def by (rule keeps_unit)

lemma harmless_built:
  assumes "build_insert_query schemas t data = Inr (q, vals)"
  shows "harmless (Insert q vals)"
    and "harmless (Insert (replace_returning q student_conflict) vals)"
    and "harmless (Insert (replace_returning q submission_conflict) vals)"
  using build_insert_query_Inr[OF assms]
  by (auto simp: harmless_def replace_returning_def student_conflict_def submission_conflict_def)

lemma keeps_get_all_modules: "keeps_row sid get_all_modules"
  unfolding get_all_modules_def
  by (subst execute_bind) (rule keeps_unit, simp add: harmless_def)

lemma keeps_get_module_by_drive_folder: "keeps_row sid (get_module_by_drive_folder folder_id)"
  unfolding get_module_by_drive_folder_def by (rule keeps_unit) (simp add: harmless_def)

lemma keeps_get_student_by_email: "keeps_row sid (get_student_by_email email)"
  unfolding get_student_by_email_def by (rule keeps_unit) (simp add: harmless_def)

lemma keeps_built_insert:
  "keeps_row sid (bind (lift (build_insert_query schemas t data))
                       (\<lambda>(query, vals). insert_returning_id query vals))"
proof (cases "build_insert_query schemas t data")
  case (Inl e)
  show ?thesis unfolding Inl by (rule keeps_rowI) (simp add: bind_lift)
next
  case (Inr qv)
  obtain q vals where qv: "qv = (q, vals)" by (cases qv)
  from harmless_built(1)[OF Inr[unfolded qv]] have "keeps_row sid (insert_returning_id q vals)"
    by (rule keeps_insert)
  then show ?thesis unfolding Inr qv keeps_row_def by (simp add: bind_lift)
qed

lemma keeps_create_module: "keeps_row sid (create_module schemas name folder_id description)"
proof -
  have "keeps_row sid (create_module schemas (Some (VStr n)) folder_id description)" for n
    unfolding create_module_def option.case pyval.case Let_def
    by (intro keeps_bind keeps_unit keeps_built_insert) (simp add: harmless_def)
  moreover have "keeps_row sid (create_module schemas name folder_id description)"
    if "\<And>n. name \<noteq> Some (VStr n)"
    using that by (auto simp: create_module_def keeps_lift split: option.splits pyval.splits)
  ultimately show ?thesis by blast
qed

lemma keeps_create_student: "keeps_row sid (create_student schemas name email)"
proof (cases "student_query schemas name email")
  case (Inl e)
  show ?thesis unfolding create_student_def Inl by (rule keeps_rowI) (simp add: bind_lift)
next
  case (Inr qv)
  obtain q vals where qv: "qv = (q, vals)" by (cases qv)
  from Inr[unfolded qv] have "harmless (Insert q vals)"
    by (auto simp: student_query_def Let_def harmless_built split: if_splits sum.splits)
  then have "keeps_row sid (insert_returning_id q vals)" by (rule keeps_insert)
  then show ?thesis unfolding create_student_def Inr qv keeps_row_def by (simp add: bind_lift)
qed

lemma keeps_create_submission:
  "keeps_row sid (create_submission schemas module_id student_id fd)"
proof (rule keeps_rowI)
  fix w r w'
  assume run: "create_submission schemas module_id student_id fd w = (r, w')"
    and has: "has_sync_row sid (w_db w)"
  show "has_sync_row sid (w_db w')"
  proof (cases "submission_query schemas module_id student_id fd (w_parse_date w) (w_clock w)")
    case (Inl e)
    with run have "w' = w" by (simp add: create_submission_def bind_lift)
    with has show ?thesis by simp
  next
    case (Inr qv)
    obtain q vals where qv: "qv = (q, vals)" by (cases qv)
    from Inr[unfolded qv] have "harmless (Insert q vals)"
      by (auto simp: submission_query_def Let_def harmless_built split: if_splits sum.splits)
    then have k: "keeps_row sid (insert_returning_id q vals)" by (rule keeps_insert)
    from run Inr qv have "insert_returning_id q vals w = (r, w')"
      by (simp add: create_submission_def bind_lift)
    from keeps_rowD[OF k this has] show ?thesis .
  qed
qed

lemma keeps_update_sync_log: "keeps_row sid (update_sync_log schemas sync_id status kwargs)"
proof (rule keeps_rowI)
  fix w r w'
  assume run: "update_sync_log schemas sync_id status kwargs w = (r, w')"
    and has: "has_sync_row sid (w_db w)"
  let ?kvs = "surviving (column_names schemas ''sync_logs'') (optional_fields status kwargs (w_clock w))"
  have "''id'' \<notin> fst ` set ?kvs"
    using surviving_keys[of "''id''" "column_names schemas ''sync_logs''" "optional_fields status kwargs (w_clock w)"]
    by (auto simp: optional_fields_def)
  then have ok: "harmless (Update ''sync_logs'' (''status'' # map fst ?kvs) (VStr status # map snd ?kvs) sync_id)"
    by (simp add: harmless_def)
  from run have "get_cursor (bind (execute (Update ''sync_logs'' (''status'' # map fst ?kvs)
                                      (VStr status # map snd ?kvs) sync_id))
                                  (\<lambda>rows. lift (Inr ()))) w = (r, w')"
    by (simp add: update_sync_log_def sync_log_update_eq)
  from keeps_rowD[OF keeps_unit[OF ok] this has] show "has_sync_row sid (w_db w')" .
qed

lemma keeps_sync_folder:
  assumes "has_sync_row sid (w_db (snd acc))"
  shows "has_sync_row sid (w_db (snd (sync_folder schemas module_folder acc)))"
proof -
  obtain results w where acc: "acc = (results, w)" by (cases acc)
  from assms acc have has: "has_sync_row sid (w_db w)" by simp
  let ?fid = "Some (VStr (fo_id module_folder))"
  obtain r1 w1 where g: "get_module_by_drive_folder ?fid w = (r1, w1)"
    by (cases "get_module_by_drive_folder ?fid w")
  from keeps_rowD[OF keeps_get_module_by_drive_folder g has] have h1: "has_sync_row sid (w_db w1)" .
  let ?descr = "Some (VStr (''M'' @ [CHR 0xF3] @ ''dulo desde Google Drive: '' @ fo_name module_folder))"
  obtain r2 w2 where c: "create_module schemas (Some (VStr (fo_name module_folder))) ?fid ?descr w1 = (r2, w2)"
    by (cases "create_module schemas (Some (VStr (fo_name module_folder))) ?fid ?descr w1")
  from keeps_rowD[OF keeps_create_module c h1] have h2: "has_sync_row sid (w_db w2)" .
  from g c h1 h2 show ?thesis
    unfolding acc sync_folder_def
    by (simp add: Let_def split: sum.splits option.splits)
qed

lemma keeps_fold_sync_folder:
  "has_sync_row sid (w_db (snd acc))
   \<Longrightarrow> has_sync_row sid (w_db (snd (fold (sync_folder schemas) folders acc)))"
  by (induction folders arbitrary: acc) (simp_all add: keeps_sync_folder)

lemma keeps_sync_modules_to_db: "keeps_row sid (sync_modules_to_db schemas)"
proof -
  have "has_sync_row sid (w_db (snd (sync_modules_to_db schemas w)))"
    if has: "has_sync_row sid (w_db w)" for w
  proof (cases "w_folders w")
    case (Inl e)
    with has show ?thesis by (simp add: sync_modules_to_db_def)
  next
    case (Inr folders)
    let ?start = "(\<lparr>modules_processed = 0, modules_created = 0, modules_existing = 0,
                    sync_errors = []\<rparr>, w)"
    from has have "has_sync_row sid (w_db (snd (fold (sync_folder schemas) folders ?start)))"
      by (intro keeps_fold_sync_folder) simp
    with Inr show ?thesis by (simp add: sync_modules_to_db_def case_prod_beta)
  qed
  then show ?thesis by (simp add: keeps_row_def)
qed

lemma keeps_scan_file:
  assumes "has_sync_row sid (w_db (snd acc))"
  shows "has_sync_row sid (w_db (snd (scan_file schemas module_id fd acc)))"
proof -
  obtain results w where acc: "acc = (results, w)" by (cases acc)
  from assms acc have has: "has_sync_row sid (w_db w)" by simp
  show ?thesis
  proof (cases "f_name fd")
    case None
    with has show ?thesis by (simp add: acc scan_file_def)
  next
    case (Some file_name)
    show ?thesis
    proof (cases "identify_student_from_file fd")
      case None
      with Some has show ?thesis by (simp add: acc scan_file_def)
    next
      case (Some ident)
      obtain student_name student_email where ident: "ident = (student_name, student_email)"
        by (cases ident)
      obtain r1 w1 where s1: "create_student schemas student_name student_email w = (r1, w1)"
        by (cases "create_student schemas student_name student_email w")
      from keeps_rowD[OF keeps_create_student s1 has] have h1: "has_sync_row sid (w_db w1)" .
      obtain r2 w2 where s2: "get_student_by_email student_email w1 = (r2, w2)"
        by (cases "get_student_by_email student_email w1")
      from keeps_rowD[OF keeps_get_student_by_email s2 h1] have h2: "has_sync_row sid (w_db w2)" .
      have h3: "has_sync_row sid (w_db (snd (create_submission schemas module_id student_id fd w2)))"
        for student_id
        using keeps_create_submission h2 unfolding keeps_row_def by blast
      from \<open>f_name fd = Some file_name\<close> Some ident s1 s2 h1 h2 h3 show ?thesis
        unfolding acc scan_file_def
        by (simp add: Let_def case_prod_beta split: sum.splits)
    qed
  qed
qed

lemma keeps_fold_scan_file:
  "has_sync_row sid (w_db (snd acc))
   \<Longrightarrow> has_sync_row sid (w_db (snd (fold (scan_file schemas module_id) files acc)))"
  by (induction files arbitrary: acc) (simp_all add: keeps_scan_file)

lemma keeps_resolve_module: "keeps_row sid (resolve_module schemas module_data)"
  unfolding resolve_module_def Let_def
  by (auto intro!: keeps_bind keeps_lift keeps_get_module_by_drive_folder keeps_create_module
           split: option.splits)

lemma keeps_scan_module_smart: "keeps_row sid (scan_module_smart schemas module_data)"
proof (rule keeps_rowI)
  fix w r w'
  assume run: "scan_module_smart schemas module_data w = (r, w')"
    and has: "has_sync_row sid (w_db w)"
  obtain r1 w1 where res: "resolve_module schemas module_data w = (r1, w1)"
    by (cases "resolve_module schemas module_data w")
  from keeps_rowD[OF keeps_resolve_module res has] have h1: "has_sync_row sid (w_db w1)" .
  have h2: "has_sync_row sid (w_db (snd (fold (scan_file schemas module_id) files (start, w1))))"
    for module_id files start
    by (rule keeps_fold_scan_file) (simp add: h1)
  from run res h1 h2 show "has_sync_row sid (w_db w')"
    unfolding scan_module_smart_def
    by (auto simp: Let_def case_prod_beta split: sum.splits)
qed

lemma keeps_scan_one:
  assumes "has_sync_row sid (w_db (snd acc))"
  shows "has_sync_row sid (w_db (snd (scan_one schemas module acc)))"
proof -
  obtain fr w where acc: "acc = (fr, w)" by (cases acc)
  from assms acc have has: "has_sync_row sid (w_db w)" by simp
  obtain r1 w1 where s: "scan_module_smart schemas module w = (r1, w1)"
    by (cases "scan_module_smart schemas module w")
  from keeps_rowD[OF keeps_scan_module_smart s has] have h1: "has_sync_row sid (w_db w1)" .
  from s has h1 show ?thesis
    unfolding acc scan_one_def
    by (simp split: option.splits scan_result.splits)
qed

lemma keeps_fold_scan_one:
  "has_sync_row sid (w_db (snd acc))
   \<Longrightarrow> has_sync_row sid (w_db (snd (fold (scan_one schemas) modules acc)))"
  by (induction modules arbitrary: acc) (simp_all add: keeps_scan_one)

lemma keeps_scan_steps: "keeps_row sid (scan_steps schemas sync_id)"
proof (rule keeps_rowI)
  fix w r w'
  assume run: "scan_steps schemas sync_id w = (r, w')" and has: "has_sync_row sid (w_db w)"
  obtain sr w1 where s: "sync_modules_to_db schemas w = (sr, w1)"
    by (cases "sync_modules_to_db schemas w")
  from keeps_rowD[OF keeps_sync_modules_to_db s has] have h1: "has_sync_row sid (w_db w1)" .
  obtain g w2 where g: "get_all_modules w1 = (g, w2)" by (cases "get_all_modules w1")
  from keeps_rowD[OF keeps_get_all_modules g h1] have h2: "has_sync_row sid (w_db w2)" .
  show "has_sync_row sid (w_db w')"
  proof (cases g)
    case (Inl e)
    with run s g h2 show ?thesis by (simp add: scan_steps_def)
  next
    case (Inr modules)
    let ?fr0 = "\<lparr>fr_sync_id = sync_id, fr_sync_results = sr,
                  fr_total_modules = length modules, fr_modules_scanned = 0,
                  fr_total_files = 0, fr_total_submissions = 0, fr_total_students = 0,
                  fr_errors = sync_errors_of sr, fr_module_details = []\<rparr>"
    obtain fr3 w3 where f: "fold (scan_one schemas) modules (?fr0, w2) = (fr3, w3)"
      by (cases "fold (scan_one schemas) modules (?fr0, w2)")
    from keeps_fold_scan_one[of sid "(?fr0, w2)" schemas modules] h2 f
    have h3: "has_sync_row sid (w_db w3)" by simp
    obtain u w4 where u: "update_sync_log schemas sync_id (final_status fr3) (final_kwargs fr3) w3 = (u, w4)"
      by (cases "update_sync_log schemas sync_id (final_status fr3) (final_kwargs fr3) w3")
    from keeps_rowD[OF keeps_update_sync_log u h3] have h4: "has_sync_row sid (w_db w4)" .
    from run s g Inr f u have "w' = w4" by (auto simp: scan_steps_def split: sum.splits)
    with h4 show ?thesis by simp
  qed
qed

text \<open>Creating the sync log gives the id of a row that is then in the sync log.\<close>

lemma create_sync_log_Inr:
  assumes "create_sync_log schemas sync_type w = (Inr sync_id, w1)"
  shows "sync_id \<noteq> None" and "has_sync_row sync_id (w_db w1)"
proof -
  let ?data = "[(''sync_type'', Some (VStr sync_type)), (''status'', Some (VStr ''running'')),
                (''started_at'', Some (VTime (w_clock w)))]"
  from assms obtain q vals where b: "build_insert_query schemas ''sync_logs'' ?data = Inr (q, vals)"
    and i: "insert_returning_id q vals w = (Inr sync_id, w1)"
    by (cases "build_insert_query schemas ''sync_logs'' ?data")
       (auto simp: create_sync_log_def bind_lift Let_def)
  from build_insert_query_Inr[OF b] have q: "q_table q = ''sync_logs''" "q_closing q = Returning_id"
    by auto
  let ?p = "proposed_row q vals (w_next_id w)"
  from statement_unit(2)[OF i[unfolded insert_returning_id_def] refl] obtain rows where
    run: "run_insert q vals (w_next_id w) (w_clock w) (w_db w) = Inr (w_db w1, rows)"
    and it: "item (fetchone rows) ''id'' = Inr sync_id" by auto
  from run q obtain t where t: "w_db w ''sync_logs'' = Some t"
    and d: "w_db w1 = (w_db w)(''sync_logs'' \<mapsto> t\<lparr>t_rows := t_rows t @ [?p]\<rparr>)"
    and rows: "rows = [[''id'' \<mapsto> ?p ''id'']]"
    by (auto simp: run_insert_def Let_def split: option.splits if_splits)
  from it rows have sid: "sync_id = ?p ''id''" by (simp add: item_def fetchone_def)
  have "?p ''id'' \<noteq> None" by (simp add: proposed_row_def map_add_def split: option.splits)
  with sid show "sync_id \<noteq> None" by simp
  from d have "sync_log_rows (w_db w1) = t_rows t @ [?p]" by (simp add: sync_rows_this_table)
  with sid show "has_sync_row sync_id (w_db w1)" by (simp add: has_sync_row_def)
qed

text \<open>
  Claim C6, as the code has it. When the scan returns its results, the sync log has
  the row of the run, and that row has the status completed if the list \<open>errors\<close>
  of the results is empty and completed_with_errors otherwise. That list is the list
  \<open>errors\<close> of the module synchronisation, or the empty list when the
  synchronisation failed as a whole and returned only its \<open>error\<close>, followed by one
  message for every module that was not scanned: the errors of single files are not
  in it. When creating the sync log raises, the scan returns the dictionary with that
  error and the database is as it was.
\<close>

theorem terminal_status:
  "(\<forall>fr. fst (full_adaptive_scan schemas w) = Returned fr \<longrightarrow>
       fr_sync_id fr \<noteq> None
     \<and> (\<exists>row \<in> set (sync_log_rows (w_db (snd (full_adaptive_scan schemas w)))).
           row ''id'' = fr_sync_id fr)
     \<and> (\<forall>row \<in> set (sync_log_rows (w_db (snd (full_adaptive_scan schemas w)))).
           row ''id'' = fr_sync_id fr \<longrightarrow>
           row ''status'' = Some (VStr (if fr_errors fr = [] then ''completed''
                                        else ''completed_with_errors'')))
     \<and> (\<forall>sync_id w1. create_sync_log schemas ''full_adaptive_scan'' w = (Inr sync_id, w1) \<longrightarrow>
           (\<exists>errs. length errs + fr_modules_scanned fr = fr_total_modules fr
               \<and> (case fst (sync_modules_to_db schemas w1) of
                      Sync_done stats \<Rightarrow> fr_errors fr = sync_errors stats @ errs
                    | Sync_failed msg \<Rightarrow> fr_errors fr = errs))))
   \<and> (\<forall>e w1. create_sync_log schemas ''full_adaptive_scan'' w = (Inl e, w1) \<longrightarrow>
         full_adaptive_scan schemas w = (Returned_error (run_error_msg e), w1) \<and> w_db w1 = w_db w)"
proof (intro conjI allI impI)
  fix fr assume ret: "fst (full_adaptive_scan schemas w) = Returned fr"
  obtain c w1 where c: "create_sync_log schemas ''full_adaptive_scan'' w = (c, w1)"
    by (cases "create_sync_log schemas ''full_adaptive_scan'' w")
  from ret c obtain sync_id where sid: "c = Inr sync_id"
    by (cases c) (auto simp: full_adaptive_scan_def)
  obtain s w2 where s: "scan_steps schemas sync_id w1 = (s, w2)"
    by (cases "scan_steps schemas sync_id w1")
  from ret c sid s have sfr: "s = Inr fr" and w2: "snd (full_adaptive_scan schemas w) = w2"
    by (auto simp: full_adaptive_scan_def split: sum.splits prod.splits)
  note steps = scan_steps_Inr[OF s[unfolded sfr]]
  from steps(2) obtain w3 where
    u: "update_sync_log schemas sync_id (final_status fr) (final_kwargs fr) w3 = (Inr (), w2)" by blast
  from create_sync_log_Inr[OF c[unfolded sid]]
  have some: "sync_id \<noteq> None" and made: "has_sync_row sync_id (w_db w1)" .
  from steps(1) some show "fr_sync_id fr \<noteq> None" by simp
  from keeps_rowD[OF keeps_scan_steps s made] steps(1) w2
  show "\<exists>row \<in> set (sync_log_rows (w_db (snd (full_adaptive_scan schemas w)))).
           row ''id'' = fr_sync_id fr"
    by (simp add: has_sync_row_def)
  show "\<forall>row \<in> set (sync_log_rows (w_db (snd (full_adaptive_scan schemas w)))).
           row ''id'' = fr_sync_id fr \<longrightarrow>
           row ''status'' = Some (VStr (if fr_errors fr = [] then ''completed''
                                        else ''completed_with_errors''))"
  proof (intro ballI impI)
    fix row assume "row \<in> set (sync_log_rows (w_db (snd (full_adaptive_scan schemas w))))"
      and "row ''id'' = fr_sync_id fr"
    with w2 steps(1) some
    have "row \<in> set (sync_log_rows (w_db w2))" "sync_id \<noteq> None" "row ''id'' = sync_id"
      by simp_all
    from update_sets_status[OF u this]
    show "row ''status'' = Some (VStr (if fr_errors fr = [] then ''completed''
                                        else ''completed_with_errors''))"
      by (simp add: final_status_def)
  qed
  fix sync_id' w1'
  assume "create_sync_log schemas ''full_adaptive_scan'' w = (Inr sync_id', w1')"
  with c sid have "w1' = w1" by simp
  with steps(3) show "\<exists>errs. length errs + fr_modules_scanned fr = fr_total_modules fr
               \<and> (case fst (sync_modules_to_db schemas w1') of
                      Sync_done stats \<Rightarrow> fr_errors fr = sync_errors stats @ errs
                    | Sync_failed msg \<Rightarrow> fr_errors fr = errs)"
    by (auto simp: sync_errors_of_def split: sync_results.splits)
next
  fix e w1 assume c: "create_sync_log schemas ''full_adaptive_scan'' w = (Inl e, w1)"
  then show "full_adaptive_scan schemas w = (Returned_error (run_error_msg e), w1)"
    by (simp add: full_adaptive_scan_def)
  from create_sync_log_Inl[OF c] show "w_db w1 = w_db w" .
qed

text \<open>
  When the run fails after the sync log exists and the write that marks it failed
  raises too, that second exception leaves \<open>full_adaptive_scan\<close>.
\<close>

lemma secondary_failure_escapes:
  assumes "create_sync_log schemas ''full_adaptive_scan'' w = (Inr sync_id, w1)"
    and "scan_steps schemas sync_id w1 = (Inl e, w2)"
    and "update_sync_log schemas sync_id ''failed''
           \<lparr>kw_files_processed = None, kw_errors = None,
            kw_error_details = Some (VJsonError (run_error_msg e) (w_clock w2))\<rparr> w2 = (Inl e2, w3)"
  shows "full_adaptive_scan schemas w = (Raised e2, w3)"
  using assms by (simp add: full_adaptive_scan_def)

section \<open>The sample runs\<close>

lemma sample_columns:
  "column_names sample_schemas ''submissions''
     = [''id'', ''module_id'', ''student_id'', ''file_id'', ''filename'', ''size_bytes'',
        ''modified_time'', ''detected_at'']"
  "column_names sample_schemas ''students'' = [''id'', ''full_name'', ''email'', ''updated_at'']"
  "column_names sample_schemas ''sync_logs''
     = [''id'', ''sync_type'', ''status'', ''started_at'', ''completed_at'', ''files_processed'',
        ''errors'', ''error_details'']"
  by (simp_all add: column_names_def sample_schemas_def discover_schema_def sample_db_def)

subsection \<open>A unit of work that commits and one that does not\<close>

lemma sample_body_runs:
  "(case get_connection sample_body sample_world of
      (r, w') \<Rightarrow> (r, column ''status'' (sync_log_rows (w_db w')), w_open w'))
     = (Inr (Some (VInt 100)), [Some (VStr ''running'')], 0)"
  by code_simp

lemma sample_body_fails:
  "(case get_connection sample_body commit_fails_world of
      (r, w') \<Rightarrow> (r, column ''status'' (sync_log_rows (w_db w')), w_open w'))
     = (Inl (DatabaseError ''commit failed''), [], 0)"
  by code_simp

lemma sample_body_lost:
  "(case get_connection sample_body lost_world of
      (r, w') \<Rightarrow> (r, fst (sample_body (snd (connect lost_world))),
                   column ''status'' (sync_log_rows (w_db w')), w_open w'))
     = (Inl (DatabaseError ''connection already closed''),
        Inl (DatabaseError ''server closed the connection unexpectedly''), [], 0)"
  by code_simp

theorem transactional_unit_witness:
  "in_transaction sample_body
   \<and> fst (get_connection sample_body sample_world) = Inr (Some (VInt 100))
   \<and> column ''status'' (sync_log_rows (w_db (snd (get_connection sample_body sample_world))))
       = [Some (VStr ''running'')]
   \<and> w_open (snd (get_connection sample_body sample_world)) = w_open sample_world
   \<and> fst (get_connection sample_body commit_fails_world) = Inl (DatabaseError ''commit failed'')
   \<and> w_db (snd (get_connection sample_body commit_fails_world)) = w_db commit_fails_world
   \<and> w_open (snd (get_connection sample_body commit_fails_world)) = w_open commit_fails_world
   \<and> fst (get_connection sample_body lost_world) = Inl (DatabaseError ''connection already closed'')
   \<and> w_db (snd (get_connection sample_body lost_world)) = w_db lost_world
   \<and> w_open (snd (get_connection sample_body lost_world)) = w_open lost_world"
proof -
  have body: "in_transaction sample_body"
    unfolding sample_body_def by (rule in_transaction_execute)
  have ok: "fst (get_connection sample_body sample_world) = Inr (Some (VInt 100))"
    "column ''status'' (sync_log_rows (w_db (snd (get_connection sample_body sample_world))))
       = [Some (VStr ''running'')]"
    using sample_body_runs by (simp_all add: case_prod_beta)
  have bad: "fst (get_connection sample_body commit_fails_world) = Inl (DatabaseError ''commit failed'')"
    using sample_body_fails by (simp add: case_prod_beta)
  have lost: "fst (get_connection sample_body lost_world) = Inl (DatabaseError ''connection already closed'')"
    using sample_body_lost by (simp add: case_prod_beta)
  from transactional_unit[OF body prod.collapse[symmetric], of sample_world]
  have 1: "w_open (snd (get_connection sample_body sample_world)) = w_open sample_world" by blast
  from transactional_unit[OF body prod.collapse[symmetric], of commit_fails_world] bad
  have 2: "w_db (snd (get_connection sample_body commit_fails_world)) = w_db commit_fails_world"
    "w_open (snd (get_connection sample_body commit_fails_world)) = w_open commit_fails_world"
    by blast+
  from transactional_unit[OF body prod.collapse[symmetric], of lost_world] lost
  have 3: "w_db (snd (get_connection sample_body lost_world)) = w_db lost_world"
    "w_open (snd (get_connection sample_body lost_world)) = w_open lost_world"
    by blast+
  from body ok bad lost 1 2 3 show ?thesis by simp
qed

text \<open>
  The claim as written has the triggering error reach the caller after every failure.
  In the unit below the connection is lost while the statement runs: the statement
  raises, \<open>rollback\<close> raises in the \<open>except\<close> clause, and the caller of the unit, and
  of \<open>create_sync_log\<close>, gets the exception of \<open>rollback\<close>.
\<close>

theorem rollback_failure_counterexample:
  "fst (sample_body (snd (connect lost_world)))
     = Inl (DatabaseError ''server closed the connection unexpectedly'')
   \<and> fst (get_connection sample_body lost_world) = Inl (DatabaseError ''connection already closed'')
   \<and> fst (create_sync_log sample_schemas ''full_adaptive_scan'' lost_world)
       = Inl (DatabaseError ''connection already closed'')"
proof -
  have "fst (sample_body (snd (connect lost_world)))
     = Inl (DatabaseError ''server closed the connection unexpectedly'')"
    "fst (get_connection sample_body lost_world) = Inl (DatabaseError ''connection already closed'')"
    using sample_body_lost by (simp_all add: case_prod_beta)
  moreover have "fst (create_sync_log sample_schemas ''full_adaptive_scan'' lost_world)
       = Inl (DatabaseError ''connection already closed'')"
    by code_simp
  ultimately show ?thesis by blast
qed

subsection \<open>A sync log that ends with errors\<close>

lemma running_update:
  "(case update_sync_log sample_schemas (Some (VInt 7)) ''completed_with_errors'' two_errors running_world of
      (r, w') \<Rightarrow> (r, column ''id'' (sync_log_rows (w_db w')), column ''completed_at'' (sync_log_rows (w_db w')),
                  column ''completed_at'' (sync_log_rows (w_db running_world))))
     = (Inr (), [Some (VInt 7)], [None], [None])"
  by code_simp

theorem completed_at_only_when_finished_witness:
  "fst (update_sync_log sample_schemas (Some (VInt 7)) ''completed_with_errors'' two_errors running_world)
     = Inr ()
   \<and> ''completed_at'' \<in> set (column_names sample_schemas ''sync_logs'')
   \<and> ''completed_at'' \<notin> set (fst (sync_log_update sample_schemas ''completed_with_errors'' two_errors 1000))
   \<and> ''completed_at'' \<in> set (fst (sync_log_update sample_schemas ''failed'' two_errors 1000))
   \<and> column ''completed_at'' (sync_log_rows (w_db (snd
        (update_sync_log sample_schemas (Some (VInt 7)) ''completed_with_errors'' two_errors running_world))))
       = [None]
   \<and> (\<exists>row \<in> set (sync_log_rows (w_db (snd
        (update_sync_log sample_schemas (Some (VInt 7)) ''completed_with_errors'' two_errors running_world)))).
         row ''id'' = Some (VInt 7)
       \<and> row ''status'' = Some (VStr ''completed_with_errors'')
       \<and> row ''files_processed'' = Some (VInt 3) \<and> row ''errors'' = Some (VInt 2))"
proof -
  let ?X = "update_sync_log sample_schemas (Some (VInt 7)) ''completed_with_errors'' two_errors running_world"
  have ev: "fst ?X = Inr ()" "column ''id'' (sync_log_rows (w_db (snd ?X))) = [Some (VInt 7)]"
    "column ''completed_at'' (sync_log_rows (w_db (snd ?X))) = [None]"
    using running_update by (simp_all add: case_prod_beta)
  from ev(2) obtain row where row: "row \<in> set (sync_log_rows (w_db (snd ?X)))" "row ''id'' = Some (VInt 7)"
    by (cases "sync_log_rows (w_db (snd ?X))") (auto simp: column_def)
  have cols: "''completed_at'' \<in> set (column_names sample_schemas ''sync_logs'')"
    "''files_processed'' \<in> set (column_names sample_schemas ''sync_logs'')"
    "''errors'' \<in> set (column_names sample_schemas ''sync_logs'')"
    by (simp_all add: sample_columns)
  have kw: "kw_files_processed two_errors = Some (VInt 3)" "kw_errors two_errors = Some (VInt 2)"
    by (simp_all add: two_errors_def)
  note inst = completed_at_only_when_finished
      [of sample_schemas _ two_errors 1000 "Some (VInt 7)" running_world "fst ?X" "snd ?X"]
  from inst[of "''completed_with_errors''"] cols
  have a: "''completed_at'' \<notin> set (fst (sync_log_update sample_schemas ''completed_with_errors'' two_errors 1000))"
    by simp
  from inst[of "''failed''"] cols
  have b: "''completed_at'' \<in> set (fst (sync_log_update sample_schemas ''failed'' two_errors 1000))"
    by simp
  note rows = inst[of "''completed_with_errors''", THEN conjunct2, THEN mp,
      OF prod.collapse[symmetric], THEN conjunct2, THEN mp, OF ev(1), THEN bspec, OF row(1)]
  from rows row(2) have "row ''status'' = Some (VStr ''completed_with_errors'')"
    and "kw_files_processed two_errors = Some (VInt 3)
           \<and> ''files_processed'' \<in> set (column_names sample_schemas ''sync_logs'')
         \<longrightarrow> row ''files_processed'' = Some (VInt 3)"
    and "kw_errors two_errors = Some (VInt 2)
           \<and> ''errors'' \<in> set (column_names sample_schemas ''sync_logs'')
         \<longrightarrow> row ''errors'' = Some (VInt 2)"
    by simp_all
  with cols kw
  have c: "row ''status'' = Some (VStr ''completed_with_errors'')
       \<and> row ''files_processed'' = Some (VInt 3) \<and> row ''errors'' = Some (VInt 2)"
    by blast
  from ev a b c row cols show ?thesis by blast
qed

subsection \<open>A file that is detected again\<close>

lemma detected_again:
  "(case create_submission sample_schemas (Some (VInt 9)) (Some (VInt 8)) sample_file stored_world of
      (r, w') \<Rightarrow> (r, column ''module_id'' (table_rows ''submissions'' (w_db w')),
                  column ''student_id'' (table_rows ''submissions'' (w_db w')),
                  column ''file_id'' (table_rows ''submissions'' (w_db w')),
                  column ''size_bytes'' (table_rows ''submissions'' (w_db w')),
                  column ''detected_at'' (table_rows ''submissions'' (w_db w'))))
     = (Inr (Some (VInt 50)), [Some (VInt 1)], [Some (VInt 5)], [Some (VStr ''F123'')],
        [Some (VInt 2048)], [Some (VTime 1000)])"
  by code_simp

theorem submission_upsert_frame_witness:
  "''file_id'' \<in> set (column_names sample_schemas ''submissions'')
   \<and> f_id sample_file = Some ''F123''
   \<and> w_db stored_world ''submissions'' = Some stored_table
   \<and> (\<exists>stored \<in> set (t_rows stored_table). stored ''file_id'' = Some (VStr ''F123''))
   \<and> fst (create_submission sample_schemas (Some (VInt 9)) (Some (VInt 8)) sample_file stored_world)
       = Inr (Some (VInt 50))
   \<and> column ''module_id'' (table_rows ''submissions'' (w_db (snd
        (create_submission sample_schemas (Some (VInt 9)) (Some (VInt 8)) sample_file stored_world))))
       = [Some (VInt 1)]
   \<and> column ''size_bytes'' (table_rows ''submissions'' (w_db (snd
        (create_submission sample_schemas (Some (VInt 9)) (Some (VInt 8)) sample_file stored_world))))
       = [Some (VInt 2048)]
   \<and> (\<exists>t'. w_db (snd (create_submission sample_schemas (Some (VInt 9)) (Some (VInt 8))
                        sample_file stored_world)) ''submissions'' = Some t'
         \<and> length (t_rows t') = length (t_rows stored_table)
         \<and> (t_rows t' ! 0) ''module_id'' = Some (VInt 1)
         \<and> (t_rows t' ! 0) ''student_id'' = Some (VInt 5)
         \<and> (t_rows t' ! 0) ''file_id'' = Some (VStr ''F123''))"
proof -
  let ?X = "create_submission sample_schemas (Some (VInt 9)) (Some (VInt 8)) sample_file stored_world"
  have h1: "''file_id'' \<in> set (column_names sample_schemas ''submissions'')"
    by (simp add: sample_columns)
  have h2: "f_id sample_file = Some ''F123''" by (simp add: sample_file_def)
  have h3: "w_db stored_world ''submissions'' = Some stored_table"
    by (simp add: stored_world_def sample_world_def)
  have h4: "\<exists>stored \<in> set (t_rows stored_table). stored ''file_id'' = Some (VStr ''F123'')"
    by (simp add: stored_table_def)
  have ev: "fst ?X = Inr (Some (VInt 50))"
    "column ''module_id'' (table_rows ''submissions'' (w_db (snd ?X))) = [Some (VInt 1)]"
    "column ''size_bytes'' (table_rows ''submissions'' (w_db (snd ?X))) = [Some (VInt 2048)]"
    using detected_again by (simp_all add: case_prod_beta)
  from submission_upsert_frame[OF prod.collapse[symmetric] h1 h2 h3 h4]
  obtain t' where t': "w_db (snd ?X) ''submissions'' = Some t'"
    "length (t_rows t') = length (t_rows stored_table)"
    "\<forall>i < length (t_rows stored_table). \<forall>c.
        c \<notin> {''filename'', ''size_bytes'', ''modified_time'', ''detected_at''}
        \<longrightarrow> (t_rows t' ! i) c = (t_rows stored_table ! i) c"
    by blast
  have len: "0 < length (t_rows stored_table)" by (simp add: stored_table_def)
  from t'(3) len have keep: "(t_rows t' ! 0) c = (t_rows stored_table ! 0) c"
    if "c \<notin> {''filename'', ''size_bytes'', ''modified_time'', ''detected_at''}" for c
    using that by blast
  have "(t_rows t' ! 0) ''module_id'' = Some (VInt 1)"
    "(t_rows t' ! 0) ''student_id'' = Some (VInt 5)"
    "(t_rows t' ! 0) ''file_id'' = Some (VStr ''F123'')"
    by (simp_all add: keep stored_table_def)
  with t'(1,2) h1 h2 h3 h4 ev show ?thesis by blast
qed

subsection \<open>A student who is resolved again\<close>

lemma resolved_again:
  "(case create_student sample_schemas ''Luz Paz'' ''luz@uni.edu'' enrolled_world of
      (r, w') \<Rightarrow> (r, column ''email'' (student_rows (w_db w')), column ''full_name'' (student_rows (w_db w')),
                  valid_emails (w_db enrolled_world),
                  column ''email'' (student_rows (w_db enrolled_world))))
     = (Inr (Some (VInt 5)), [Some (VStr ''luz@uni.edu'')], [Some (VStr ''Luz Paz'')],
        [''luz@uni.edu''], [Some (VStr ''luz@uni.edu'')])"
  by code_simp

theorem create_student_keeps_emails_unique_witness:
  "''email'' \<in> set (column_names sample_schemas ''students'')
   \<and> CHR ''@'' \<in> set ''luz@uni.edu''
   \<and> distinct (valid_emails (w_db enrolled_world))
   \<and> (\<exists>row \<in> set (student_rows (w_db enrolled_world)). row ''email'' = Some (VStr ''luz@uni.edu''))
   \<and> fst (create_student sample_schemas ''Luz Paz'' ''luz@uni.edu'' enrolled_world) = Inr (Some (VInt 5))
   \<and> (\<exists>q vals. student_query sample_schemas ''Luz Paz'' ''luz@uni.edu'' = Inr (q, vals)
         \<and> q_closing q = student_conflict)
   \<and> distinct (valid_emails (w_db (snd (create_student sample_schemas ''Luz Paz'' ''luz@uni.edu'' enrolled_world))))
   \<and> length (student_rows (w_db (snd (create_student sample_schemas ''Luz Paz'' ''luz@uni.edu'' enrolled_world))))
       = length (student_rows (w_db enrolled_world))
   \<and> (\<exists>row \<in> set (student_rows (w_db (snd
          (create_student sample_schemas ''Luz Paz'' ''luz@uni.edu'' enrolled_world)))).
         row ''email'' = Some (VStr ''luz@uni.edu'') \<and> row ''full_name'' = Some (VStr ''Luz Paz''))"
proof -
  let ?X = "create_student sample_schemas ''Luz Paz'' ''luz@uni.edu'' enrolled_world"
  have cols: "''email'' \<in> set (column_names sample_schemas ''students'')"
    "''full_name'' \<in> set (column_names sample_schemas ''students'')"
    by (simp_all add: sample_columns)
  have at: "CHR ''@'' \<in> set ''luz@uni.edu''" by simp
  have ev: "fst ?X = Inr (Some (VInt 5))" "valid_emails (w_db enrolled_world) = [''luz@uni.edu'']"
    "column ''email'' (student_rows (w_db enrolled_world)) = [Some (VStr ''luz@uni.edu'')]"
    using resolved_again by (simp_all add: case_prod_beta)
  from ev(2) have dist: "distinct (valid_emails (w_db enrolled_world))" by simp
  from ev(3) have held: "\<exists>row \<in> set (student_rows (w_db enrolled_world)). row ''email'' = Some (VStr ''luz@uni.edu'')"
    by (cases "student_rows (w_db enrolled_world)") (auto simp: column_def)
  note inst = create_student_keeps_emails_unique[of sample_schemas "''Luz Paz''" "''luz@uni.edu''"
      enrolled_world "fst ?X" "snd ?X", OF prod.collapse[symmetric]]
  from inst cols at have 1: "\<exists>q vals. student_query sample_schemas ''Luz Paz'' ''luz@uni.edu'' = Inr (q, vals)
         \<and> q_closing q = student_conflict" by blast
  from inst dist have 2: "distinct (valid_emails (w_db (snd ?X)))" by blast
  from inst cols at held have 3: "length (student_rows (w_db (snd ?X))) = length (student_rows (w_db enrolled_world))"
    by blast
  from inst cols at held ev(1) have 4: "\<exists>row \<in> set (student_rows (w_db (snd ?X))).
         row ''email'' = Some (VStr ''luz@uni.edu'') \<and> row ''full_name'' = Some (VStr ''Luz Paz'')"
    by blast
  from cols(1) at dist held ev(1) 1 2 3 4 show ?thesis by blast
qed

subsection \<open>Runs of the full scan\<close>

lemma sample_run:
  "(case full_adaptive_scan sample_schemas sample_world of
      (out, w') \<Rightarrow> (returned_errors out, map_option fr_sync_id (returned out)))
     = (Some [], Some (Some (VInt 100)))"
  by code_simp

lemma unlisted_run:
  "(case full_adaptive_scan sample_schemas unlisted_world of
      (out, w') \<Rightarrow> (map_option length (returned_errors out), map_option fr_sync_id (returned out)))
     = (Some 1, Some (Some (VInt 100)))"
  by code_simp

lemma rootless_run:
  "(case full_adaptive_scan sample_schemas rootless_world of
      (out, w') \<Rightarrow> (returned_errors out, map_option fr_sync_results (returned out)))
     = (Some [], Some (Sync_failed (''Error en sincronizaci'' @ [CHR 0xF3] @ ''n: root folder not found'')))"
  by code_simp

lemma returned_Some: "returned out = Some fr \<Longrightarrow> out = Returned fr"
  by (cases out) (simp_all add: returned_def)

lemma down_run:
  "fst (create_sync_log sample_schemas ''full_adaptive_scan'' down_world)
     = Inl (DatabaseError ''could not connect'')"
  by code_simp

theorem terminal_status_witness:
  "fst (create_sync_log sample_schemas ''full_adaptive_scan'' down_world)
     = Inl (DatabaseError ''could not connect'')
   \<and> fst (full_adaptive_scan sample_schemas down_world)
       = Returned_error ''Error en escaneo completo: could not connect''
   \<and> sync_log_rows (w_db (snd (full_adaptive_scan sample_schemas down_world))) = []
   \<and> (\<exists>fr. fst (full_adaptive_scan sample_schemas sample_world) = Returned fr
       \<and> fr_errors fr = [] \<and> fr_sync_id fr = Some (VInt 100)
       \<and> (\<exists>row \<in> set (sync_log_rows (w_db (snd (full_adaptive_scan sample_schemas sample_world)))).
             row ''id'' = fr_sync_id fr \<and> row ''status'' = Some (VStr ''completed'')))
   \<and> (\<exists>fr. fst (full_adaptive_scan sample_schemas unlisted_world) = Returned fr
       \<and> length (fr_errors fr) = 1 \<and> fr_sync_id fr = Some (VInt 100)
       \<and> (\<exists>row \<in> set (sync_log_rows (w_db (snd (full_adaptive_scan sample_schemas unlisted_world)))).
             row ''id'' = fr_sync_id fr \<and> row ''status'' = Some (VStr ''completed_with_errors'')))
   \<and> (\<exists>fr msg. fst (full_adaptive_scan sample_schemas rootless_world) = Returned fr
       \<and> fr_errors fr = [] \<and> fr_sync_results fr = Sync_failed msg
       \<and> (\<exists>row \<in> set (sync_log_rows (w_db (snd (full_adaptive_scan sample_schemas rootless_world)))).
             row ''id'' = fr_sync_id fr \<and> row ''status'' = Some (VStr ''completed'')))"
proof (intro conjI)
  show "fst (create_sync_log sample_schemas ''full_adaptive_scan'' down_world)
     = Inl (DatabaseError ''could not connect'')" by (rule down_run)
  let ?C = "create_sync_log sample_schemas ''full_adaptive_scan'' down_world"
  have c: "?C = (Inl (DatabaseError ''could not connect''), snd ?C)"
    using down_run by (metis prod.collapse)
  from terminal_status[of sample_schemas down_world] c
  have r: "full_adaptive_scan sample_schemas down_world
             = (Returned_error (run_error_msg (DatabaseError ''could not connect'')), snd ?C)"
    and d: "w_db (snd ?C) = w_db down_world" by blast+
  from r show "fst (full_adaptive_scan sample_schemas down_world)
       = Returned_error ''Error en escaneo completo: could not connect''"
    by (simp add: run_error_msg_def)
  from r d show "sync_log_rows (w_db (snd (full_adaptive_scan sample_schemas down_world))) = []"
    by (simp add: sync_log_rows_def down_world_def sample_world_def sample_db_def)
next
  let ?X = "full_adaptive_scan sample_schemas sample_world"
  have ev: "returned_errors (fst ?X) = Some []" "map_option fr_sync_id (returned (fst ?X)) = Some (Some (VInt 100))"
    using sample_run by (simp_all add: case_prod_beta)
  from ev(1) obtain fr where r: "returned (fst ?X) = Some fr" and e: "fr_errors fr = []"
    by (auto simp: returned_errors_def)
  from ev(2) r have "fr_sync_id fr = Some (VInt 100)" by simp
  with returned_Some[OF r] e
  have fr: "fst ?X = Returned fr" "fr_errors fr = []" "fr_sync_id fr = Some (VInt 100)" by simp_all
  note t = terminal_status[of sample_schemas sample_world, THEN conjunct1, rule_format, OF fr(1)]
  from t obtain row where row: "row \<in> set (sync_log_rows (w_db (snd ?X)))" "row ''id'' = fr_sync_id fr"
    by blast
  with t fr(2) have "row ''status'' = Some (VStr ''completed'')" by simp
  with fr row show "\<exists>fr. fst ?X = Returned fr
       \<and> fr_errors fr = [] \<and> fr_sync_id fr = Some (VInt 100)
       \<and> (\<exists>row \<in> set (sync_log_rows (w_db (snd ?X))).
             row ''id'' = fr_sync_id fr \<and> row ''status'' = Some (VStr ''completed''))" by blast
next
  let ?X = "full_adaptive_scan sample_schemas unlisted_world"
  have ev: "map_option length (returned_errors (fst ?X)) = Some 1"
    "map_option fr_sync_id (returned (fst ?X)) = Some (Some (VInt 100))"
    using unlisted_run by (simp_all add: case_prod_beta)
  from ev(1) obtain fr where r: "returned (fst ?X) = Some fr" and e: "length (fr_errors fr) = 1"
    by (auto simp: returned_errors_def)
  from ev(2) r have "fr_sync_id fr = Some (VInt 100)" by simp
  with returned_Some[OF r] e
  have fr: "fst ?X = Returned fr" "length (fr_errors fr) = 1" "fr_sync_id fr = Some (VInt 100)"
    by simp_all
  from fr(2) have ne: "fr_errors fr \<noteq> []" by auto
  note t = terminal_status[of sample_schemas unlisted_world, THEN conjunct1, rule_format, OF fr(1)]
  from t obtain row where row: "row \<in> set (sync_log_rows (w_db (snd ?X)))" "row ''id'' = fr_sync_id fr"
    by blast
  with t ne have "row ''status'' = Some (VStr ''completed_with_errors'')" by simp
  with fr row show "\<exists>fr. fst ?X = Returned fr
       \<and> length (fr_errors fr) = 1 \<and> fr_sync_id fr = Some (VInt 100)
       \<and> (\<exists>row \<in> set (sync_log_rows (w_db (snd ?X))).
             row ''id'' = fr_sync_id fr \<and> row ''status'' = Some (VStr ''completed_with_errors''))" by blast
next
  let ?X = "full_adaptive_scan sample_schemas rootless_world"
  have ev: "returned_errors (fst ?X) = Some []"
    "map_option fr_sync_results (returned (fst ?X))
       = Some (Sync_failed (''Error en sincronizaci'' @ [CHR 0xF3] @ ''n: root folder not found''))"
    using rootless_run by (simp_all add: case_prod_beta)
  from ev(1) obtain fr where r: "returned (fst ?X) = Some fr" and e: "fr_errors fr = []"
    by (auto simp: returned_errors_def)
  from ev(2) r obtain msg where msg: "fr_sync_results fr = Sync_failed msg" by simp
  from returned_Some[OF r] have fr: "fst ?X = Returned fr" .
  note t = terminal_status[of sample_schemas rootless_world, THEN conjunct1, rule_format, OF fr]
  from t obtain row where row: "row \<in> set (sync_log_rows (w_db (snd ?X)))" "row ''id'' = fr_sync_id fr"
    by blast
  with t e have "row ''status'' = Some (VStr ''completed'')" by simp
  with fr e msg row show "\<exists>fr msg. fst ?X = Returned fr
       \<and> fr_errors fr = [] \<and> fr_sync_results fr = Sync_failed msg
       \<and> (\<exists>row \<in> set (sync_log_rows (w_db (snd ?X))).
             row ''id'' = fr_sync_id fr \<and> row ''status'' = Some (VStr ''completed''))" by blast
qed

text \<open>
  The claim as written lets one failing file end the run with errors. In the run below
  the store rejects the submission of the only file: the module reports one file
  error, the list \<open>errors\<close> of the results is empty and the row of the run says
  completed, with an error count of zero.
\<close>

lemma rejecting_run:
  "(case full_adaptive_scan sample_schemas rejecting_world of
      (out, w') \<Rightarrow> (returned_errors out, file_error_counts out,
                    column ''status'' (sync_log_rows (w_db w')),
                    column ''errors'' (sync_log_rows (w_db w'))))
     = (Some [], [1], [Some (VStr ''completed'')], [Some (VInt 0)])"
  by code_simp

theorem file_error_counterexample:
  "returned_errors (fst (full_adaptive_scan sample_schemas rejecting_world)) = Some []
   \<and> file_error_counts (fst (full_adaptive_scan sample_schemas rejecting_world)) = [1]
   \<and> column ''status'' (sync_log_rows (w_db (snd (full_adaptive_scan sample_schemas rejecting_world))))
       = [Some (VStr ''completed'')]
   \<and> column ''errors'' (sync_log_rows (w_db (snd (full_adaptive_scan sample_schemas rejecting_world))))
       = [Some (VInt 0)]"
  using rejecting_run by (simp add: case_prod_beta)

text \<open>
  Claim C9 at a run in which the store is lost after the sync log was created: reading
  the modules raises \<open>connection lost\<close>, the write that marks the run failed raises
  \<open>connection refused\<close>, and it is this second exception that leaves
  \<open>full_adaptive_scan\<close>. Had the second write succeeded, the scan would have returned
  the first error.
\<close>

theorem secondary_failure_masks_original:
  "fst (full_adaptive_scan sample_schemas outage_world) = Raised (DatabaseError ''connection refused'')
   \<and> fst (full_adaptive_scan sample_schemas brief_outage_world)
       = Returned_error ''Error en escaneo completo: connection lost''"
proof -
  have "fst (full_adaptive_scan sample_schemas outage_world) = Raised (DatabaseError ''connection refused'')"
    by code_simp
  moreover have "fst (full_adaptive_scan sample_schemas brief_outage_world)
       = Returned_error ''Error en escaneo completo: connection lost''"
    by code_simp
  ultimately show ?thesis by blast
qed

end
